theory Spec2Isabelle
  imports Main "HOL-Library.Word"
begin

unbundle bit_operations_syntax

section \<open>The decoded values\<close>

text \<open>
  The parser of \<^verbatim>\<open>src/bplistParser.ts\<close> turns a \<^verbatim>\<open>Uint8Array\<close> into a \<^verbatim>\<open>Property\<close>.
  Bytes are 8-bit words; a JavaScript string is its sequence of UTF-16 code units.
\<close>

type_synonym byte = "8 word"
type_synonym jsstring = "16 word list"

definition js :: "string \<Rightarrow> jsstring" where
  "js s = map (\<lambda>c. of_nat (of_char c)) s"

text \<open>
  What an object inherits from: \<^verbatim>\<open>Object.prototype\<close> (every object literal starts there),
  \<^verbatim>\<open>null\<close>, or another decoded object.
\<close>

datatype 'a prototype = ObjectPrototype | NullPrototype | ObjectValue 'a

text \<open>
  \<^verbatim>\<open>Property\<close>. A \<^verbatim>\<open>number\<close> that comes out of the integer fold is an \<open>int\<close>; a \<^verbatim>\<open>bigint\<close>
  is kept apart from it, as \<^verbatim>\<open>typeof\<close> does. A floating-point number is represented by the
  IEEE-754 bits it was read from (\<open>Real32\<close> for \<^verbatim>\<open>getFloat32\<close>, \<open>Real64\<close> for \<^verbatim>\<open>getFloat64\<close>),
  and a \<^verbatim>\<open>Date\<close> by the bits of the seconds it was built from: the time value is
  \<^verbatim>\<open>EPOCH + 1000 * seconds\<close>. A dictionary is the object the parser returns: its own
  properties in the order they were created, and its prototype.
\<close>

datatype property =
    Null
  | Boolean bool
  | Integer int
  | BigInteger nat
  | UID nat
  | Real32 "32 word"
  | Real64 "64 word"
  | Date "64 word"
  | Data "byte list"
  | String jsstring
  | Array "property list"
  | Dictionary "(jsstring \<times> property) list" "property prototype"

fun typeof :: "property \<Rightarrow> string" where
  "typeof Null = ''object''"
| "typeof (Boolean b) = ''boolean''"
| "typeof (Integer n) = ''number''"
| "typeof (BigInteger n) = ''bigint''"
| "typeof (Real32 w) = ''number''"
| "typeof (Real64 w) = ''number''"
| "typeof (String s) = ''string''"
| "typeof v = ''object''"

text \<open>Whether a value is an object in the sense of the language (\<^verbatim>\<open>null\<close> is not).\<close>

fun isObject :: "property \<Rightarrow> bool" where
  "isObject (UID n) = True"
| "isObject (Date w) = True"
| "isObject (Data bs) = True"
| "isObject (Array xs) = True"
| "isObject (Dictionary own proto) = True"
| "isObject v = False"

section \<open>Errors\<close>

text \<open>
  Every \<^verbatim>\<open>throw new Error(...)\<close> of the source is one \<open>message\<close>; the faults raised by the
  platform itself (\<^verbatim>\<open>DataView\<close> reads out of bounds, \<^verbatim>\<open>reduce\<close> of an empty array,
  \<^verbatim>\<open>BigInt\<close> of a malformed literal, assignment to a read-only property) are the
  language's own \<^verbatim>\<open>RangeError\<close>, \<^verbatim>\<open>TypeError\<close> and \<^verbatim>\<open>SyntaxError\<close>.
\<close>

datatype message =
    InvalidBinaryPlist
  | MaxObjectCountExceeded
  | UnhandledType nat
  | UnhandledSimpleType nat
  | TooLittleHeapSpace
  | RealLength nat
  | UnexpectedKeyType
  | UnexpectedUintLength nat

datatype error = Error message | RangeError | TypeError | SyntaxError

section \<open>Platform operations\<close>

definition maxObjectSize :: nat where
  "maxObjectSize = 100 ^ 8"

definition maxObjectCount :: nat where
  "maxObjectCount = 32768"

text \<open>
  \<^verbatim>\<open>buffer.subarray(start, finish)\<close> for non-negative arguments: both ends are clamped to
  the length, and the view is empty when they cross.
\<close>

definition subarray :: "byte list \<Rightarrow> nat \<Rightarrow> nat \<Rightarrow> byte list" where
  "subarray buffer start finish =
     (let len = length buffer;
          relativeStart = min start len;
          relativeEnd = min finish len
      in take (relativeEnd - relativeStart) (drop relativeStart buffer))"

text \<open>\<^verbatim>\<open>buffer[i]\<close>: \<^verbatim>\<open>undefined\<close> (here \<open>None\<close>) outside the array.\<close>

definition element :: "byte list \<Rightarrow> nat \<Rightarrow> nat option" where
  "element buffer i = (if i < length buffer then Some (unat (buffer ! i)) else None)"

text \<open>The operand conversion of the bitwise operators: \<^verbatim>\<open>undefined\<close> counts as 0.\<close>

definition toInt32 :: "nat option \<Rightarrow> nat" where
  "toInt32 x = (case x of None \<Rightarrow> 0 | Some n \<Rightarrow> n)"

definition bigEndian :: "byte list \<Rightarrow> nat" where
  "bigEndian bs = foldl (\<lambda>acc b. acc * 256 + unat b) 0 bs"

text \<open>
  The \<^verbatim>\<open>DataView\<close> getters (big-endian: \<^verbatim>\<open>littleEndian = false\<close>) raise a \<^verbatim>\<open>RangeError\<close>
  when the requested bytes do not lie inside the view.
\<close>

definition viewBytes :: "byte list \<Rightarrow> int \<Rightarrow> nat \<Rightarrow> error + byte list" where
  "viewBytes view byteOffset n =
     (if byteOffset < 0 \<or> int (length view) < byteOffset + int n then Inl RangeError
      else Inr (take n (drop (nat byteOffset) view)))"

definition getUint8 :: "byte list \<Rightarrow> int \<Rightarrow> error + nat" where
  "getUint8 view byteOffset = map_sum id bigEndian (viewBytes view byteOffset 1)"

definition getUint16 :: "byte list \<Rightarrow> int \<Rightarrow> error + nat" where
  "getUint16 view byteOffset = map_sum id bigEndian (viewBytes view byteOffset 2)"

definition getBigUint64 :: "byte list \<Rightarrow> int \<Rightarrow> error + nat" where
  "getBigUint64 view byteOffset = map_sum id bigEndian (viewBytes view byteOffset 8)"

definition getFloat32 :: "byte list \<Rightarrow> int \<Rightarrow> error + 32 word" where
  "getFloat32 view byteOffset = map_sum id (\<lambda>bs. of_nat (bigEndian bs)) (viewBytes view byteOffset 4)"

definition getFloat64 :: "byte list \<Rightarrow> int \<Rightarrow> error + 64 word" where
  "getFloat64 view byteOffset = map_sum id (\<lambda>bs. of_nat (bigEndian bs)) (viewBytes view byteOffset 8)"

text \<open>
  The 32-bit operators \<^verbatim>\<open><<\<close> and \<^verbatim>\<open>|\<close>: operands are taken modulo \<open>2^32\<close> and the result
  is read as a signed 32-bit integer.
\<close>

definition shiftLeft32 :: "int \<Rightarrow> nat \<Rightarrow> int" where
  "shiftLeft32 x n = sint (push_bit n (word_of_int x :: 32 word))"

definition or32 :: "int \<Rightarrow> int \<Rightarrow> int" where
  "or32 x y = sint ((word_of_int x :: 32 word) OR word_of_int y)"

text \<open>\<^verbatim>\<open>n.toString(16)\<close> for a non-negative integer: lower-case digits, no padding.\<close>

definition hexDigit :: "nat \<Rightarrow> char" where
  "hexDigit d = ''0123456789abcdef'' ! d"

function toString16 :: "nat \<Rightarrow> string" where
  "toString16 n = (if n < 16 then [hexDigit n] else toString16 (n div 16) @ [hexDigit (n mod 16)])"
  by pat_completeness auto
termination
  by (relation "measure (\<lambda>n. n)") auto

declare toString16.simps [simp del]

text \<open>
  \<^verbatim>\<open>BigInt(`0x${str}`)\<close>: the argument of \<open>BigInt_0x\<close> is \<^verbatim>\<open>str\<close>, the text after the prefix.
  A hexadecimal literal needs at least one digit; anything else is a \<^verbatim>\<open>SyntaxError\<close>.
\<close>

definition hexValue :: "char \<Rightarrow> nat option" where
  "hexValue c =
     (let n = (of_char c :: nat) in
      if 48 \<le> n \<and> n \<le> 57 then Some (n - 48)
      else if 97 \<le> n \<and> n \<le> 102 then Some (n - 87)
      else if 65 \<le> n \<and> n \<le> 70 then Some (n - 55)
      else None)"

fun hexDigits :: "nat \<Rightarrow> string \<Rightarrow> nat option" where
  "hexDigits acc [] = Some acc"
| "hexDigits acc (c # cs) =
     (case hexValue c of None \<Rightarrow> None | Some d \<Rightarrow> hexDigits (acc * 16 + d) cs)"

definition BigInt_0x :: "string \<Rightarrow> error + nat" where
  "BigInt_0x str =
     (if str = [] then Inl SyntaxError
      else case hexDigits 0 str of None \<Rightarrow> Inl SyntaxError | Some n \<Rightarrow> Inr n)"

subsection \<open>Text decoders\<close>

text \<open>
  \<^verbatim>\<open>new TextDecoder()\<close> decodes UTF-8 and \<^verbatim>\<open>new TextDecoder("utf-16be")\<close> big-endian
  UTF-16, both with replacement of malformed input by U+FFFD and with a leading byte
  order mark removed. The UTF-8 decoder keeps the code point under construction, the
  number of continuation bytes still needed and the bounds for the next byte; a byte
  outside the bounds is looked at again after the replacement character.
\<close>

function utf8_loop :: "nat \<Rightarrow> nat \<Rightarrow> nat \<Rightarrow> nat \<Rightarrow> byte list \<Rightarrow> nat list" where
  "utf8_loop cp needed lower upper [] = (if needed \<noteq> 0 then [0xFFFD] else [])"
| "utf8_loop cp needed lower upper (b # bs) =
     (let byte = unat b in
      if needed = 0 then
        (if byte \<le> 0x7F then byte # utf8_loop 0 0 0x80 0xBF bs
         else if 0xC2 \<le> byte \<and> byte \<le> 0xDF then utf8_loop (byte AND 0x1F) 1 0x80 0xBF bs
         else if 0xE0 \<le> byte \<and> byte \<le> 0xEF then
           utf8_loop (byte AND 0xF) 2 (if byte = 0xE0 then 0xA0 else 0x80)
             (if byte = 0xED then 0x9F else 0xBF) bs
         else if 0xF0 \<le> byte \<and> byte \<le> 0xF4 then
           utf8_loop (byte AND 0x7) 3 (if byte = 0xF0 then 0x90 else 0x80)
             (if byte = 0xF4 then 0x8F else 0xBF) bs
         else 0xFFFD # utf8_loop 0 0 0x80 0xBF bs)
      else if byte < lower \<or> upper < byte then 0xFFFD # utf8_loop 0 0 0x80 0xBF (b # bs)
      else
        (let cp' = cp * 64 + (byte AND 0x3F) in
         if needed = 1 then cp' # utf8_loop 0 0 0x80 0xBF bs
         else utf8_loop cp' (needed - 1) 0x80 0xBF bs))"
  by pat_completeness auto
termination
  by (relation "measure (\<lambda>(cp, needed, lower, upper, bs). 2 * length bs + (if needed = 0 then 0 else 1))")
    auto

text \<open>A code point as UTF-16 code units, and the removal of the byte order mark.\<close>

declare utf8_loop.simps [simp del]

definition codeUnits :: "nat \<Rightarrow> jsstring" where
  "codeUnits cp =
     (if cp < 0x10000 then [of_nat cp]
      else [of_nat (0xD800 + (cp - 0x10000) div 0x400), of_nat (0xDC00 + (cp - 0x10000) mod 0x400)])"

definition stripBOM :: "nat list \<Rightarrow> nat list" where
  "stripBOM cps = (case cps of [] \<Rightarrow> [] | c # cs \<Rightarrow> if c = 0xFEFF then cs else c # cs)"

definition utf8_decode :: "byte list \<Rightarrow> jsstring" where
  "utf8_decode bytes = concat (map codeUnits (stripBOM (utf8_loop 0 0 0x80 0xBF bytes)))"

text \<open>
  The UTF-16 decoder reads two bytes at a time and remembers a lead surrogate. A lead
  surrogate followed by something else is replaced and the two bytes are read again; a
  lone trail surrogate, a pending lead surrogate or an odd byte at the end is replaced.
\<close>

function utf16_loop :: "bool \<Rightarrow> nat option \<Rightarrow> byte list \<Rightarrow> nat list" where
  "utf16_loop be lead [] = (case lead of None \<Rightarrow> [] | Some l \<Rightarrow> [0xFFFD])"
| "utf16_loop be lead [b] = [0xFFFD]"
| "utf16_loop be lead (b1 # b2 # bs) =
     (let unit = (if be then unat b1 * 256 + unat b2 else unat b2 * 256 + unat b1) in
      case lead of
        Some l \<Rightarrow>
          (if 0xDC00 \<le> unit \<and> unit \<le> 0xDFFF then l # unit # utf16_loop be None bs
           else 0xFFFD # utf16_loop be None (b1 # b2 # bs))
      | None \<Rightarrow>
          (if 0xD800 \<le> unit \<and> unit \<le> 0xDBFF then utf16_loop be (Some unit) bs
           else if 0xDC00 \<le> unit \<and> unit \<le> 0xDFFF then 0xFFFD # utf16_loop be None bs
           else unit # utf16_loop be None bs))"
  by pat_completeness auto
termination
  by (relation "measure (\<lambda>(be, lead, bs). 2 * length bs + (if lead = None then 0 else 1))")
    auto

declare utf16_loop.simps [simp del]

definition utf16be_decode :: "byte list \<Rightarrow> jsstring" where
  "utf16be_decode bytes = map of_nat (stripBOM (utf16_loop True None bytes))"

definition utf16le_decode :: "byte list \<Rightarrow> jsstring" where
  "utf16le_decode bytes = map of_nat (stripBOM (utf16_loop False None bytes))"

subsection \<open>Property assignment on the dictionary object\<close>

text \<open>
  \<^verbatim>\<open>dict[key] = val\<close> on the object that started as \<^verbatim>\<open>{}\<close>. An own property is updated in
  place. Otherwise the assignment walks the prototype chain. On \<^verbatim>\<open>Object.prototype\<close> the key
  \<^verbatim>\<open>__proto__\<close> is an accessor: its setter replaces the prototype when the value is an
  object or \<^verbatim>\<open>null\<close> and does nothing for any other value; no own property is created.
  A typed array in the chain answers for the keys that are canonical numeric strings:
  an index inside the array lets the property be created on the receiver, any other
  numeric key is dropped; its prototypes carry the read-only \<^verbatim>\<open>BYTES_PER_ELEMENT\<close> and the
  getter-only \<^verbatim>\<open>buffer\<close>, \<^verbatim>\<open>byteLength\<close>, \<^verbatim>\<open>byteOffset\<close> and \<^verbatim>\<open>length\<close>, and assigning to
  those throws a \<^verbatim>\<open>TypeError\<close> in module code. In every other case the property is created
  on the dictionary itself.

  Which strings are canonical numeric strings is decided by the engine's
  number-to-string conversion; the test is the parameter \<open>canonical\<close>. The decimal
  numerals of the indices are decided here.
\<close>

datatype found = CreateOwn | Ignored | ReadOnly | ProtoSetter

definition decimalDigit :: "16 word \<Rightarrow> bool" where
  "decimalDigit c = (48 \<le> unat c \<and> unat c \<le> 57)"

definition validIndex :: "jsstring \<Rightarrow> nat \<Rightarrow> bool" where
  "validIndex k n =
     (k \<noteq> [] \<and> list_all decimalDigit k \<and> (hd k = 48 \<longrightarrow> length k = 1)
      \<and> foldl (\<lambda>acc c. acc * 10 + (unat c - 48)) 0 k < n)"

definition objectPrototypeLookup :: "jsstring \<Rightarrow> found" where
  "objectPrototypeLookup k = (if k = js ''__proto__'' then ProtoSetter else CreateOwn)"

function (sequential) chainLookup :: "(jsstring \<Rightarrow> bool) \<Rightarrow> property prototype \<Rightarrow> jsstring \<Rightarrow> found" where
  "chainLookup canonical ObjectPrototype k = objectPrototypeLookup k"
| "chainLookup canonical NullPrototype k = CreateOwn"
| "chainLookup canonical (ObjectValue (Dictionary own proto)) k =
     (if k \<in> fst ` set own then CreateOwn else chainLookup canonical proto k)"
| "chainLookup canonical (ObjectValue (Data bytes)) k =
     (if validIndex k (length bytes) then CreateOwn
      else if canonical k then Ignored
      else if k \<in> {js ''BYTES_PER_ELEMENT'', js ''buffer'', js ''byteLength'', js ''byteOffset'',
                    js ''length''} then ReadOnly
      else objectPrototypeLookup k)"
| "chainLookup canonical (ObjectValue v) k = objectPrototypeLookup k"
  by pat_completeness auto
termination
  by (relation "measure (\<lambda>(canonical, proto, k). size_prototype size proto)") auto

fun updateOwn :: "(jsstring \<times> property) list \<Rightarrow> jsstring \<Rightarrow> property \<Rightarrow> (jsstring \<times> property) list" where
  "updateOwn [] k v = []"
| "updateOwn ((k', v') # own) k v =
     (if k' = k then (k', v) # own else (k', v') # updateOwn own k v)"

definition assign ::
  "(jsstring \<Rightarrow> bool) \<Rightarrow> (jsstring \<times> property) list \<times> property prototype \<Rightarrow> jsstring \<Rightarrow> property
   \<Rightarrow> error + (jsstring \<times> property) list \<times> property prototype" where
  "assign canonical dict key val =
     (case dict of (own, proto) \<Rightarrow>
        (if key \<in> fst ` set own then Inr (updateOwn own key val, proto)
         else
           (case chainLookup canonical proto key of
              CreateOwn \<Rightarrow> Inr (own @ [(key, val)], proto)
            | Ignored \<Rightarrow> Inr (own, proto)
            | ReadOnly \<Rightarrow> Inl TypeError
            | ProtoSetter \<Rightarrow>
                (if isObject val then Inr (own, ObjectValue val)
                 else if val = Null then Inr (own, NullPrototype)
                 else Inr (own, proto)))))"

section \<open>The parser\<close>

subsection \<open>Reading unsigned integers\<close>

definition readUInt :: "byte list \<Rightarrow> error + nat" where
  "readUInt buffer =
     (if length buffer = 1 then getUint8 buffer 0
      else if length buffer = 2 then getUint16 buffer 0
      else Inl (Error (UnexpectedUintLength (length buffer))))"

subsection \<open>Leaf objects\<close>

definition parseSimple :: "nat \<Rightarrow> nat \<Rightarrow> error + property" where
  "parseSimple objType objInfo =
     (if objInfo = 0x0 then Inr Null
      else if objInfo = 0x8 then Inr (Boolean False)
      else if objInfo = 0x9 then Inr (Boolean True)
      else if objInfo = 0xF then Inr Null
      else Inl (Error (UnhandledSimpleType objType)))"

text \<open>
  \<^verbatim>\<open>bufferToHexString\<close>: the first loop skips the leading zero bytes, the second appends
  two hexadecimal digits for every byte that is left.
\<close>

definition bufferToHexString :: "byte list \<Rightarrow> string" where
  "bufferToHexString buffer =
     concat (map (\<lambda>b. let part = ''00'' @ toString16 (unat b) in drop (length part - 2) part)
       (dropWhile (\<lambda>b. b = 0) buffer))"

text \<open>
  \<^verbatim>\<open>data.reduce(...)\<close> without an initial value: a \<^verbatim>\<open>TypeError\<close> on an empty array, else the
  fold starts from the first element.
\<close>

definition reduceShiftOr :: "byte list \<Rightarrow> error + int" where
  "reduceShiftOr data =
     (case data of
        [] \<Rightarrow> Inl TypeError
      | b # bs \<Rightarrow>
          Inr (foldl (\<lambda>acc curr. or32 (shiftLeft32 acc 8) (int (unat curr AND 255))) (int (unat b)) bs))"

definition parseInteger :: "byte list \<Rightarrow> nat \<Rightarrow> nat \<Rightarrow> error + property" where
  "parseInteger buffer offset objInfo =
     (let len = 2 ^ objInfo in
      if len < maxObjectSize then
        (let data = subarray buffer (offset + 1) (offset + 1 + len) in
         if len = 16 then
           (case BigInt_0x (bufferToHexString data) of
              Inl e \<Rightarrow> Inl e
            | Inr n \<Rightarrow> Inr (BigInteger n))
         else
           (case reduceShiftOr data of
              Inl e \<Rightarrow> Inl e
            | Inr n \<Rightarrow> Inr (Integer n)))
      else Inl (Error TooLittleHeapSpace))"

definition parseUID :: "byte list \<Rightarrow> nat \<Rightarrow> nat \<Rightarrow> error + property" where
  "parseUID buffer offset objInfo =
     (let len = objInfo + 1 in
      if len < maxObjectSize then
        (case readUInt (subarray buffer (offset + 1) (offset + 1 + len)) of
           Inl e \<Rightarrow> Inl e
         | Inr n \<Rightarrow> Inr (UID n))
      else Inl (Error TooLittleHeapSpace))"

definition parseReal :: "byte list \<Rightarrow> nat \<Rightarrow> nat \<Rightarrow> error + property" where
  "parseReal buffer offset objInfo =
     (let len = 2 ^ objInfo in
      if len < maxObjectSize then
        (let realBuffer = subarray buffer (offset + 1) (offset + 1 + len) in
         if len = 4 then
           (case getFloat32 realBuffer 0 of Inl e \<Rightarrow> Inl e | Inr w \<Rightarrow> Inr (Real32 w))
         else if len = 8 then
           (case getFloat64 realBuffer 0 of Inl e \<Rightarrow> Inl e | Inr w \<Rightarrow> Inr (Real64 w))
         else Inl (Error (RealLength len)))
      else Inl (Error TooLittleHeapSpace))"

definition parseDate :: "byte list \<Rightarrow> nat \<Rightarrow> nat \<Rightarrow> error + property" where
  "parseDate buffer offset objInfo =
     (let dateBuffer = subarray buffer (offset + 1) (offset + 9) in
      case getFloat64 dateBuffer 0 of Inl e \<Rightarrow> Inl e | Inr w \<Rightarrow> Inr (Date w))"

text \<open>
  \<^verbatim>\<open>parseData\<close>, \<^verbatim>\<open>parsePlistString\<close>, \<^verbatim>\<open>parseArray\<close> and \<^verbatim>\<open>parseDictionary\<close> open with the same
  block, embedded once: the count is \<^verbatim>\<open>objInfo\<close> and the payload starts one byte after the
  type byte, unless \<^verbatim>\<open>objInfo\<close> is \<^verbatim>\<open>0xF\<close>; then the next byte gives the width
  \<^verbatim>\<open>2 ^ intInfo\<close> of the count that follows it, and the payload starts after that. (The high
  nibble of that byte is only compared with \<^verbatim>\<open>0x1\<close> for a console message.) The result is
  the pair of the count and the payload offset.
\<close>

definition lengthAndOffset :: "byte list \<Rightarrow> nat \<Rightarrow> nat \<Rightarrow> error + nat \<times> nat" where
  "lengthAndOffset buffer offset objInfo =
     (if objInfo = 0xF then
        (let int_type = element buffer (offset + 1);
             intInfo = toInt32 int_type AND 0x0F;
             intLength = 2 ^ intInfo
         in case readUInt (subarray buffer (offset + 2) (offset + 2 + intLength)) of
              Inl e \<Rightarrow> Inl e
            | Inr len \<Rightarrow> Inr (len, 2 + intLength))
      else Inr (objInfo, 1))"

definition parseData :: "byte list \<Rightarrow> nat \<Rightarrow> nat \<Rightarrow> error + property" where
  "parseData buffer offset objInfo =
     (case lengthAndOffset buffer offset objInfo of
        Inl e \<Rightarrow> Inl e
      | Inr (len, dataoffset) \<Rightarrow>
          if len < maxObjectSize then
            Inr (Data (subarray buffer (offset + dataoffset) (offset + dataoffset + len)))
          else Inl (Error TooLittleHeapSpace))"

definition parsePlistString :: "byte list \<Rightarrow> nat \<Rightarrow> nat \<Rightarrow> bool \<Rightarrow> error + property" where
  "parsePlistString buffer offset objInfo isUtf16 =
     (let charLength = (if isUtf16 then 1 else 0 :: nat) in
      case lengthAndOffset buffer offset objInfo of
        Inl e \<Rightarrow> Inl e
      | Inr (len0, stroffset) \<Rightarrow>
          (let len = len0 * (charLength + 1) in
           if len < maxObjectSize then
             (let plistString = subarray buffer (offset + stroffset) (offset + stroffset + len) in
              Inr (String (if charLength \<noteq> 0 then utf16be_decode plistString
                           else utf8_decode plistString)))
           else Inl (Error TooLittleHeapSpace)))"

subsection \<open>Containers and the object dispatch\<close>

text \<open>
  The variables that \<^verbatim>\<open>parseObject\<close> and its inner functions close over: the input, the
  offset table and the width of an object reference; \<open>canonical\<close> is the engine's test
  for canonical numeric strings used by property assignment.
\<close>

record ctx =
  buffer :: "byte list"
  offsetTable :: "nat list"
  objectRefSize :: nat
  canonical :: "jsstring \<Rightarrow> bool"

text \<open>
  \<^verbatim>\<open>parseObject\<close> calls itself through the containers, and nothing in the source bounds
  the depth: a table whose objects refer to each other in a cycle recurses for ever.
  The embedding counts the depth down; \<open>None\<close> says that the given depth was not enough.
  The loops take the recursive call as \<open>parse\<close>.
\<close>

type_synonym 'a outcome = "(error + 'a) option"

definition objRefAt :: "ctx \<Rightarrow> nat \<Rightarrow> nat \<Rightarrow> error + nat" where
  "objRefAt ctx start i =
     readUInt (subarray (buffer ctx) (start + i * objectRefSize ctx) (start + (i + 1) * objectRefSize ctx))"

function parseArray_loop ::
  "(nat \<Rightarrow> property outcome) \<Rightarrow> ctx \<Rightarrow> nat \<Rightarrow> nat \<Rightarrow> nat \<Rightarrow> nat \<Rightarrow> property list
   \<Rightarrow> property list outcome" where
  "parseArray_loop parse ctx offset arrayoffset len i array =
     (if i < len then
        (case objRefAt ctx (offset + arrayoffset) i of
           Inl e \<Rightarrow> Some (Inl e)
         | Inr objRef \<Rightarrow>
             (case parse objRef of
                None \<Rightarrow> None
              | Some (Inl e) \<Rightarrow> Some (Inl e)
              | Some (Inr v) \<Rightarrow> parseArray_loop parse ctx offset arrayoffset len (i + 1) (array @ [v])))
      else Some (Inr array))"
  by pat_completeness auto
termination
  by (relation "measure (\<lambda>(parse, ctx, offset, arrayoffset, len, i, array). len - i)") auto

declare parseArray_loop.simps [simp del]

definition parseArray :: "(nat \<Rightarrow> property outcome) \<Rightarrow> ctx \<Rightarrow> nat \<Rightarrow> nat \<Rightarrow> property outcome" where
  "parseArray parse ctx offset objInfo =
     (case lengthAndOffset (buffer ctx) offset objInfo of
        Inl e \<Rightarrow> Some (Inl e)
      | Inr (len, arrayoffset) \<Rightarrow>
          if len * objectRefSize ctx > maxObjectSize then Some (Inl (Error TooLittleHeapSpace))
          else
            (case parseArray_loop parse ctx offset arrayoffset len 0 [] of
               None \<Rightarrow> None
             | Some (Inl e) \<Rightarrow> Some (Inl e)
             | Some (Inr array) \<Rightarrow> Some (Inr (Array array))))"

function parseDictionary_loop ::
  "(nat \<Rightarrow> property outcome) \<Rightarrow> ctx \<Rightarrow> nat \<Rightarrow> nat \<Rightarrow> nat \<Rightarrow> nat
   \<Rightarrow> (jsstring \<times> property) list \<times> property prototype
   \<Rightarrow> ((jsstring \<times> property) list \<times> property prototype) outcome" where
  "parseDictionary_loop parse ctx offset dictoffset len i dict =
     (if i < len then
        (case objRefAt ctx (offset + dictoffset) i of
           Inl e \<Rightarrow> Some (Inl e)
         | Inr keyRef \<Rightarrow>
             (case objRefAt ctx (offset + dictoffset + len * objectRefSize ctx) i of
                Inl e \<Rightarrow> Some (Inl e)
              | Inr valRef \<Rightarrow>
                  (case parse keyRef of
                     None \<Rightarrow> None
                   | Some (Inl e) \<Rightarrow> Some (Inl e)
                   | Some (Inr key) \<Rightarrow>
                       (case key of
                          String k \<Rightarrow>
                            (case parse valRef of
                               None \<Rightarrow> None
                             | Some (Inl e) \<Rightarrow> Some (Inl e)
                             | Some (Inr val) \<Rightarrow>
                                 (case assign (canonical ctx) dict k val of
                                    Inl e \<Rightarrow> Some (Inl e)
                                  | Inr dict' \<Rightarrow>
                                      parseDictionary_loop parse ctx offset dictoffset len (i + 1) dict'))
                        | _ \<Rightarrow> Some (Inl (Error UnexpectedKeyType))))))
      else Some (Inr dict))"
  by pat_completeness auto
termination
  by (relation "measure (\<lambda>(parse, ctx, offset, dictoffset, len, i, dict). len - i)") auto

declare parseDictionary_loop.simps [simp del]

definition parseDictionary :: "(nat \<Rightarrow> property outcome) \<Rightarrow> ctx \<Rightarrow> nat \<Rightarrow> nat \<Rightarrow> property outcome" where
  "parseDictionary parse ctx offset objInfo =
     (case lengthAndOffset (buffer ctx) offset objInfo of
        Inl e \<Rightarrow> Some (Inl e)
      | Inr (len, dictoffset) \<Rightarrow>
          if len * 2 * objectRefSize ctx > maxObjectSize then Some (Inl (Error TooLittleHeapSpace))
          else
            (case parseDictionary_loop parse ctx offset dictoffset len 0 ([], ObjectPrototype) of
               None \<Rightarrow> None
             | Some (Inl e) \<Rightarrow> Some (Inl e)
             | Some (Inr (own, proto)) \<Rightarrow> Some (Inr (Dictionary own proto))))"

text \<open>
  \<^verbatim>\<open>offsetTable[tableOffset]\<close> is \<^verbatim>\<open>undefined\<close> outside the table and \<^verbatim>\<open>buffer[offset]\<close> is
  \<^verbatim>\<open>undefined\<close> outside the input; the two nibbles of \<^verbatim>\<open>undefined\<close> are 0, so either case
  ends in \<^verbatim>\<open>parseSimple\<close> with \<^verbatim>\<open>objInfo = 0\<close>.
\<close>

definition tableEntry :: "nat list \<Rightarrow> nat \<Rightarrow> nat option" where
  "tableEntry table i = (if i < length table then Some (table ! i) else None)"

primrec parseObject :: "nat \<Rightarrow> ctx \<Rightarrow> nat \<Rightarrow> property outcome" where
  "parseObject 0 ctx tableOffset = None"
| "parseObject (Suc depth) ctx tableOffset =
     (let type = (case tableEntry (offsetTable ctx) tableOffset of
                    None \<Rightarrow> None
                  | Some offset \<Rightarrow> element (buffer ctx) offset);
          objType = drop_bit 4 (toInt32 type AND 0xF0);
          objInfo = toInt32 type AND 0x0F
      in case tableEntry (offsetTable ctx) tableOffset of
           None \<Rightarrow> Some (parseSimple objType objInfo)
         | Some offset \<Rightarrow>
             if objType = 0x0 then Some (parseSimple objType objInfo)
             else if objType = 0x1 then Some (parseInteger (buffer ctx) offset objInfo)
             else if objType = 0x8 then Some (parseUID (buffer ctx) offset objInfo)
             else if objType = 0x2 then Some (parseReal (buffer ctx) offset objInfo)
             else if objType = 0x3 then Some (parseDate (buffer ctx) offset objInfo)
             else if objType = 0x4 then Some (parseData (buffer ctx) offset objInfo)
             else if objType = 0x5 then Some (parsePlistString (buffer ctx) offset objInfo False)
             else if objType = 0x6 then Some (parsePlistString (buffer ctx) offset objInfo True)
             else if objType = 0xA then parseArray (parseObject depth ctx) ctx offset objInfo
             else if objType = 0xD then parseDictionary (parseObject depth ctx) ctx offset objInfo
             else Some (Inl (Error (UnhandledType objType))))"

subsection \<open>The entry point\<close>

function offsetTable_loop ::
  "byte list \<Rightarrow> nat \<Rightarrow> nat \<Rightarrow> nat \<Rightarrow> nat \<Rightarrow> nat list \<Rightarrow> error + nat list" where
  "offsetTable_loop input offsetTableOffset offsetSize numObjects i table =
     (if i < numObjects then
        (case readUInt (subarray input (offsetTableOffset + i * offsetSize)
                          (offsetTableOffset + (i + 1) * offsetSize)) of
           Inl e \<Rightarrow> Inl e
         | Inr offset \<Rightarrow>
             offsetTable_loop input offsetTableOffset offsetSize numObjects (i + 1) (table @ [offset]))
      else Inr table)"
  by pat_completeness auto
termination
  by (relation "measure (\<lambda>(input, offsetTableOffset, offsetSize, numObjects, i, table). numObjects - i)")
    auto

declare offsetTable_loop.simps [simp del]

text \<open>
  \<^verbatim>\<open>parseBuffer\<close>. The trailer is read through a \<^verbatim>\<open>DataView\<close> over the whole input at
  \<^verbatim>\<open>byteLength - 32\<close>, which is negative for a short input. The three 64-bit fields become
  numbers; they are only compared or used as indices, and every value from \<open>2^53\<close> on lies
  beyond the end of any typed array, so the natural number stands for the number.
\<close>

definition parseBuffer :: "(jsstring \<Rightarrow> bool) \<Rightarrow> nat \<Rightarrow> byte list \<Rightarrow> property outcome" where
  "parseBuffer engine depth input =
     (let header = utf8_decode (subarray input 0 (length ''bplist'')) in
      if header \<noteq> js ''bplist'' then Some (Inl (Error InvalidBinaryPlist))
      else
        (let trailerOffset = int (length input) - 32 in
         case getUint8 input (trailerOffset + 6) of
           Inl e \<Rightarrow> Some (Inl e)
         | Inr offsetSize \<Rightarrow>
            (case getUint8 input (trailerOffset + 7) of
               Inl e \<Rightarrow> Some (Inl e)
             | Inr refSize \<Rightarrow>
                (case getBigUint64 input (trailerOffset + 8) of
                   Inl e \<Rightarrow> Some (Inl e)
                 | Inr numObjects \<Rightarrow>
                    (case getBigUint64 input (trailerOffset + 16) of
                       Inl e \<Rightarrow> Some (Inl e)
                     | Inr topObject \<Rightarrow>
                        (case getBigUint64 input (trailerOffset + 24) of
                           Inl e \<Rightarrow> Some (Inl e)
                         | Inr offsetTableOffset \<Rightarrow>
                            if numObjects > maxObjectCount then
                              Some (Inl (Error MaxObjectCountExceeded))
                            else
                              (case offsetTable_loop input offsetTableOffset offsetSize numObjects 0 [] of
                                 Inl e \<Rightarrow> Some (Inl e)
                               | Inr table \<Rightarrow>
                                   parseObject depth
                                     \<lparr>buffer = input, offsetTable = table, objectRefSize = refSize,
                                      canonical = engine\<rparr>
                                     topObject)))))))"

section \<open>Inputs used in the examples\<close>

definition asciiBytes :: "string \<Rightarrow> byte list" where
  "asciiBytes s = map (\<lambda>c. of_nat (of_char c)) s"

text \<open>
  A header and a trailer with no object in between: the trailer declares
  \<^verbatim>\<open>offsetSize = 1\<close>, \<^verbatim>\<open>objectRefSize = 1\<close>, \<^verbatim>\<open>numObjects = 40000\<close> (\<^verbatim>\<open>0x9C40\<close>) and an offset table
  at byte 8.
\<close>

definition plist_40000_objects :: "byte list" where
  "plist_40000_objects =
     asciiBytes ''bplist00'' @
     [0x00, 0x00, 0x00, 0x00, 0x00, 0x00, 0x01, 0x01,
      0x00, 0x00, 0x00, 0x00, 0x00, 0x00, 0x9C, 0x40,
      0x00, 0x00, 0x00, 0x00, 0x00, 0x00, 0x00, 0x00,
      0x00, 0x00, 0x00, 0x00, 0x00, 0x00, 0x00, 0x08]"

text \<open>
  A complete property list with one object, the integer tag \<^verbatim>\<open>0x14\<close> followed by sixteen
  zero bytes, at offset 8; the offset table is the single byte at offset 25.
\<close>

definition plist_integer_16_zero_bytes :: "byte list" where
  "plist_integer_16_zero_bytes =
     asciiBytes ''bplist00'' @
     [0x14, 0x00, 0x00, 0x00, 0x00, 0x00, 0x00, 0x00,
      0x00, 0x00, 0x00, 0x00, 0x00, 0x00, 0x00, 0x00,
      0x00, 0x08, 0x00, 0x00, 0x00, 0x00, 0x00, 0x00,
      0x01, 0x01, 0x00, 0x00, 0x00, 0x00, 0x00, 0x00,
      0x00, 0x01, 0x00, 0x00, 0x00, 0x00, 0x00, 0x00,
      0x00, 0x00, 0x00, 0x00, 0x00, 0x00, 0x00, 0x00,
      0x00, 0x19]"

text \<open>
  A property list with two objects: at offset 8 an array with one element, the reference
  1; at offset 10 the integer tag \<^verbatim>\<open>0x14\<close> followed by sixteen zero bytes. The offset table
  \<^verbatim>\<open>[8, 10]\<close> is at offset 27 and the top object is the array.
\<close>

definition plist_array_of_zero_integer :: "byte list" where
  "plist_array_of_zero_integer =
     asciiBytes ''bplist00'' @
     [0xA1, 0x01, 0x14, 0x00, 0x00, 0x00, 0x00, 0x00,
      0x00, 0x00, 0x00, 0x00, 0x00, 0x00, 0x00, 0x00,
      0x00, 0x00, 0x00, 0x08, 0x0A, 0x00, 0x00, 0x00,
      0x00, 0x00, 0x00, 0x01, 0x01, 0x00, 0x00, 0x00,
      0x00, 0x00, 0x00, 0x00, 0x02, 0x00, 0x00, 0x00,
      0x00, 0x00, 0x00, 0x00, 0x00, 0x00, 0x00, 0x00,
      0x00, 0x00, 0x00, 0x00, 0x1B]"

section \<open>The specification's integer reader\<close>

text \<open>
  The specification's \<^verbatim>\<open>readUnsignedBigEndian\<close>: the unsigned magnitude of a byte slice, most
  significant byte first, for a slice of any length.
\<close>

definition readUnsignedBigEndian :: "byte list \<Rightarrow> nat" where
  "readUnsignedBigEndian bytes =
     (\<Sum>i<length bytes. unat (bytes ! i) * 256 ^ (length bytes - 1 - i))"

section \<open>An invariant of the UTF-8 decoder\<close>

text \<open>
  While the UTF-8 decoder is inside a multi-byte sequence, the code point collected so
  far and the bounds for the next byte are such that the sequence can only end in a
  code point from \<open>0x80\<close> on.
\<close>

definition pending :: "nat \<Rightarrow> nat \<Rightarrow> nat \<Rightarrow> nat \<Rightarrow> bool" where
  "pending cp needed lower upper \<longleftrightarrow>
     0x80 \<le> lower \<and> upper \<le> 0xBF \<and>
     (needed = 1 \<and> 2 \<le> cp \<and> cp \<le> 0x7FFF
      \<or> needed = 2 \<and> (1 \<le> cp \<or> 0xA0 \<le> lower) \<and> cp \<le> 0x1FF
      \<or> needed = 3 \<and> (1 \<le> cp \<or> 0x90 \<le> lower) \<and> cp \<le> 7)"

section \<open>Short inputs\<close>

text \<open>The magic followed by 24 zero bytes, 30 bytes in all.\<close>

definition short_plist_30 :: "byte list" where
  "short_plist_30 =
     asciiBytes ''bplist'' @
     [0x00, 0x00, 0x00, 0x00, 0x00, 0x00, 0x00, 0x00,
      0x00, 0x00, 0x00, 0x00, 0x00, 0x00, 0x00, 0x00,
      0x00, 0x00, 0x00, 0x00, 0x00, 0x00, 0x00, 0x00]"

section \<open>An array of twenty integers\<close>

text \<open>
  Object 0, at offset 8, is an array in the extended form: the type byte \<^verbatim>\<open>0xAF\<close>, the marker
  \<^verbatim>\<open>0x10\<close> (a length of \<^verbatim>\<open>2 ^ 0 = 1\<close> byte), the count 20, and the references 1 to 20. Objects
  1 to 20 are the one-byte integers 100 to 119, at offsets 31, 33, ..., 69. The offset
  table is at offset 71.
\<close>

definition plist_array_20 :: "byte list" where
  "plist_array_20 =
     asciiBytes ''bplist00'' @
     [0xAF, 0x10, 0x14, 0x01, 0x02, 0x03, 0x04, 0x05,
      0x06, 0x07, 0x08, 0x09, 0x0A, 0x0B, 0x0C, 0x0D,
      0x0E, 0x0F, 0x10, 0x11, 0x12, 0x13, 0x14, 0x10,
      0x64, 0x10, 0x65, 0x10, 0x66, 0x10, 0x67, 0x10,
      0x68, 0x10, 0x69, 0x10, 0x6A, 0x10, 0x6B, 0x10,
      0x6C, 0x10, 0x6D, 0x10, 0x6E, 0x10, 0x6F, 0x10,
      0x70, 0x10, 0x71, 0x10, 0x72, 0x10, 0x73, 0x10,
      0x74, 0x10, 0x75, 0x10, 0x76, 0x10, 0x77, 0x08,
      0x1F, 0x21, 0x23, 0x25, 0x27, 0x29, 0x2B, 0x2D,
      0x2F, 0x31, 0x33, 0x35, 0x37, 0x39, 0x3B, 0x3D,
      0x3F, 0x41, 0x43, 0x45, 0x00, 0x00, 0x00, 0x00,
      0x00, 0x00, 0x01, 0x01, 0x00, 0x00, 0x00, 0x00,
      0x00, 0x00, 0x00, 0x15, 0x00, 0x00, 0x00, 0x00,
      0x00, 0x00, 0x00, 0x00, 0x00, 0x00, 0x00, 0x00,
      0x00, 0x00, 0x00, 0x47]"

definition offsets_array_20 :: "nat list" where
  "offsets_array_20 =
     [8, 31, 33, 35, 37, 39, 41, 43, 45, 47, 49, 51, 53, 55, 57, 59, 61, 63, 65, 67, 69]"

definition integers_100_to_119 :: "property list" where
  "integers_100_to_119 =
     [Integer 100, Integer 101, Integer 102, Integer 103, Integer 104,
      Integer 105, Integer 106, Integer 107, Integer 108, Integer 109,
      Integer 110, Integer 111, Integer 112, Integer 113, Integer 114,
      Integer 115, Integer 116, Integer 117, Integer 118, Integer 119]"

section \<open>Dictionaries used in the examples\<close>

text \<open>
  A dictionary with one pair whose key is not a string: object 0, at offset 8, is
  \<^verbatim>\<open>D1 01 02\<close> (one pair, key reference 1, value reference 2); object 1, at offset 11, is the
  integer 7 (\<^verbatim>\<open>10 07\<close>); object 2, at offset 13, is \<^verbatim>\<open>true\<close>.
\<close>

definition plist_dictionary_integer_key :: "byte list" where
  "plist_dictionary_integer_key =
     asciiBytes ''bplist00'' @
     [0xD1, 0x01, 0x02, 0x10, 0x07, 0x09, 0x08, 0x0B,
      0x0D, 0x00, 0x00, 0x00, 0x00, 0x00, 0x00, 0x01,
      0x01, 0x00, 0x00, 0x00, 0x00, 0x00, 0x00, 0x00,
      0x03, 0x00, 0x00, 0x00, 0x00, 0x00, 0x00, 0x00,
      0x00, 0x00, 0x00, 0x00, 0x00, 0x00, 0x00, 0x00,
      0x0E]"

text \<open>
  A dictionary with two pairs that have the same key: object 0, at offset 8, is
  \<^verbatim>\<open>D2 01 01 02 03\<close> (the key reference 1 twice, the value references 2 and 3); object 1 is
  the ASCII string \<^verbatim>\<open>A\<close>, object 2 is \<^verbatim>\<open>true\<close> and object 3 is \<^verbatim>\<open>false\<close>.
\<close>

definition plist_dictionary_key_A_twice :: "byte list" where
  "plist_dictionary_key_A_twice =
     asciiBytes ''bplist00'' @
     [0xD2, 0x01, 0x01, 0x02, 0x03, 0x51, 0x41, 0x09,
      0x08, 0x08, 0x0D, 0x0F, 0x10, 0x00, 0x00, 0x00,
      0x00, 0x00, 0x00, 0x01, 0x01, 0x00, 0x00, 0x00,
      0x00, 0x00, 0x00, 0x00, 0x04, 0x00, 0x00, 0x00,
      0x00, 0x00, 0x00, 0x00, 0x00, 0x00, 0x00, 0x00,
      0x00, 0x00, 0x00, 0x00, 0x11]"

text \<open>The same dictionary with the nine-character ASCII string \<^verbatim>\<open>__proto__\<close> as object 1.\<close>

definition plist_dictionary_key_proto_twice :: "byte list" where
  "plist_dictionary_key_proto_twice =
     asciiBytes ''bplist00'' @
     [0xD2, 0x01, 0x01, 0x02, 0x03, 0x59, 0x5F, 0x5F,
      0x70, 0x72, 0x6F, 0x74, 0x6F, 0x5F, 0x5F, 0x09,
      0x08, 0x08, 0x0D, 0x17, 0x18, 0x00, 0x00, 0x00,
      0x00, 0x00, 0x00, 0x01, 0x01, 0x00, 0x00, 0x00,
      0x00, 0x00, 0x00, 0x00, 0x04, 0x00, 0x00, 0x00,
      0x00, 0x00, 0x00, 0x00, 0x00, 0x00, 0x00, 0x00,
      0x00, 0x00, 0x00, 0x00, 0x19]"

section \<open>The parser with its typed arrays in a store\<close>

text \<open>
  The functions above take the input as a value. For what the parser does to memory,
  a typed array is an address in a store, the caller's input among them, and every
  function that touches a typed array takes the store and returns it. \<^verbatim>\<open>new Uint8Array(x)\<close>
  allocates a fresh array with a copy of \<open>x\<close>; an assignment \<^verbatim>\<open>array[i] = v\<close> writes the
  addressed array in place, is ignored outside the array, and stores 0 for
  \<^verbatim>\<open>undefined\<close>. A \<^verbatim>\<open>subarray\<close> is a view and allocates nothing; reading through it reads
  the array it views. An assignment to a property of a dictionary writes the dictionary,
  which is no typed array, also when a typed array is in its prototype chain.
\<close>

type_synonym address = nat

record store =
  cells :: "address \<Rightarrow> byte list"
  fresh :: address

definition allocate :: "byte list \<Rightarrow> store \<Rightarrow> address \<times> store" where
  "allocate bytes s = (fresh s, s\<lparr>cells := (cells s)(fresh s := bytes), fresh := Suc (fresh s)\<rparr>)"

definition assignElement :: "address \<Rightarrow> nat \<Rightarrow> nat option \<Rightarrow> store \<Rightarrow> store" where
  "assignElement a i v s =
     (if i < length (cells s a)
      then s\<lparr>cells := (cells s)(a := (cells s a)[i := of_nat (toInt32 v)])\<rparr>
      else s)"

subsection \<open>The string decoder that swaps bytes\<close>

text \<open>
  The revision of the parser in lines 349 to 716 of \<^verbatim>\<open>src/bplistParser.ts\<close> corrects the
  byte order itself: \<^verbatim>\<open>parsePlistString\<close> copies the slice, \<^verbatim>\<open>swapBytes\<close> exchanges the bytes
  of every pair in the copy, and the result is decoded as little-endian UTF-16. Its
  \<^verbatim>\<open>readUInt\<close> folds a slice of any length with the 32-bit operators, so a count is a
  signed 32-bit number there, and \<^verbatim>\<open>subarray\<close> has to take a negative end, which counts
  from the end of the array.
\<close>

function swapBytes_loop :: "address \<Rightarrow> nat \<Rightarrow> nat \<Rightarrow> store \<Rightarrow> store" where
  "swapBytes_loop a len i s =
     (if i < len then
        (let x = element (cells s a) i;
             s1 = assignElement a i (element (cells s a) (i + 1)) s;
             s2 = assignElement a (i + 1) x s1
         in swapBytes_loop a len (i + 2) s2)
      else s)"
  by pat_completeness auto
termination
  by (relation "measure (\<lambda>(a, len, i, s). len - i)") auto

declare swapBytes_loop.simps [simp del]

definition swapBytes :: "address \<Rightarrow> store \<Rightarrow> store" where
  "swapBytes a s = swapBytes_loop a (length (cells s a)) 0 s"

definition readUInt_loop :: "byte list \<Rightarrow> nat \<Rightarrow> int" where
  "readUInt_loop bytes start =
     foldl (\<lambda>l b. or32 (shiftLeft32 l 8) (int (unat b AND 0xFF))) 0 (drop start bytes)"

definition subarray_int :: "byte list \<Rightarrow> int \<Rightarrow> int \<Rightarrow> byte list" where
  "subarray_int bytes start finish =
     (let len = int (length bytes);
          relativeStart = (if start < 0 then max (len + start) 0 else min start len);
          relativeEnd = (if finish < 0 then max (len + finish) 0 else min finish len)
      in take (nat (relativeEnd - relativeStart)) (drop (nat relativeStart) bytes))"

definition lengthAndOffset_loop :: "byte list \<Rightarrow> nat \<Rightarrow> nat \<Rightarrow> int \<times> nat" where
  "lengthAndOffset_loop bytes offset objInfo =
     (if objInfo = 0xF then
        (let int_type = element bytes (offset + 1);
             intInfo = toInt32 int_type AND 0x0F;
             intLength = 2 ^ intInfo
         in (readUInt_loop (subarray bytes (offset + 2) (offset + 2 + intLength)) 0, 2 + intLength))
      else (int objInfo, 1))"

definition parsePlistString_swap ::
  "address \<Rightarrow> nat \<Rightarrow> nat \<Rightarrow> bool \<Rightarrow> store \<Rightarrow> (error + property) \<times> store" where
  "parsePlistString_swap a offset objInfo isUtf16 s =
     (let charLength = (if isUtf16 then 1 else 0 :: int) in
      case lengthAndOffset_loop (cells s a) offset objInfo of
        (len0, stroffset) \<Rightarrow>
          (let len = len0 * (charLength + 1) in
           if len < int maxObjectSize then
             (case allocate (subarray_int (cells s a) (int (offset + stroffset))
                               (int (offset + stroffset) + len)) s of
                (plistString, s1) \<Rightarrow>
                  if charLength \<noteq> 0 then
                    (let s2 = swapBytes plistString s1
                     in (Inr (String (utf16le_decode (cells s2 plistString))), s2))
                  else (Inr (String (utf8_decode (cells s1 plistString))), s1))
           else (Inl (Error TooLittleHeapSpace), s)))"

subsection \<open>The current parser\<close>

text \<open>
  The closure variables with the input as an address. \<open>view\<close> gives them as the functions
  above take them, with the bytes the input holds in the given store.
\<close>

record ctx_store =
  bufferAt :: address
  offsets :: "nat list"
  refWidth :: nat
  numeric :: "jsstring \<Rightarrow> bool"

definition view :: "ctx_store \<Rightarrow> store \<Rightarrow> ctx" where
  "view c s = \<lparr>buffer = cells s (bufferAt c), offsetTable = offsets c, objectRefSize = refWidth c,
               canonical = numeric c\<rparr>"

definition parsePlistString_st ::
  "address \<Rightarrow> nat \<Rightarrow> nat \<Rightarrow> bool \<Rightarrow> store \<Rightarrow> (error + property) \<times> store" where
  "parsePlistString_st a offset objInfo isUtf16 s =
     (let charLength = (if isUtf16 then 1 else 0 :: nat) in
      case lengthAndOffset (cells s a) offset objInfo of
        Inl e \<Rightarrow> (Inl e, s)
      | Inr (len0, stroffset) \<Rightarrow>
          (let len = len0 * (charLength + 1) in
           if len < maxObjectSize then
             (case allocate (subarray (cells s a) (offset + stroffset) (offset + stroffset + len)) s of
                (plistString, s1) \<Rightarrow>
                  (Inr (String (if charLength \<noteq> 0 then utf16be_decode (cells s1 plistString)
                                else utf8_decode (cells s1 plistString))), s1))
           else (Inl (Error TooLittleHeapSpace), s)))"

function parseArray_loop_st ::
  "(nat \<Rightarrow> store \<Rightarrow> property outcome \<times> store) \<Rightarrow> ctx_store \<Rightarrow> nat \<Rightarrow> nat \<Rightarrow> nat \<Rightarrow> nat
   \<Rightarrow> property list \<Rightarrow> store \<Rightarrow> property list outcome \<times> store" where
  "parseArray_loop_st parse c offset arrayoffset len i array s =
     (if i < len then
        (case objRefAt (view c s) (offset + arrayoffset) i of
           Inl e \<Rightarrow> (Some (Inl e), s)
         | Inr objRef \<Rightarrow>
             (case parse objRef s of
                (None, s1) \<Rightarrow> (None, s1)
              | (Some (Inl e), s1) \<Rightarrow> (Some (Inl e), s1)
              | (Some (Inr v), s1) \<Rightarrow>
                  parseArray_loop_st parse c offset arrayoffset len (i + 1) (array @ [v]) s1))
      else (Some (Inr array), s))"
  by pat_completeness auto
termination
  by (relation "measure (\<lambda>(parse, c, offset, arrayoffset, len, i, array, s). len - i)") auto

declare parseArray_loop_st.simps [simp del]

definition parseArray_st ::
  "(nat \<Rightarrow> store \<Rightarrow> property outcome \<times> store) \<Rightarrow> ctx_store \<Rightarrow> nat \<Rightarrow> nat \<Rightarrow> store
   \<Rightarrow> property outcome \<times> store" where
  "parseArray_st parse c offset objInfo s =
     (case lengthAndOffset (cells s (bufferAt c)) offset objInfo of
        Inl e \<Rightarrow> (Some (Inl e), s)
      | Inr (len, arrayoffset) \<Rightarrow>
          if len * refWidth c > maxObjectSize then (Some (Inl (Error TooLittleHeapSpace)), s)
          else
            (case parseArray_loop_st parse c offset arrayoffset len 0 [] s of
               (None, s1) \<Rightarrow> (None, s1)
             | (Some (Inl e), s1) \<Rightarrow> (Some (Inl e), s1)
             | (Some (Inr array), s1) \<Rightarrow> (Some (Inr (Array array)), s1)))"

function parseDictionary_loop_st ::
  "(nat \<Rightarrow> store \<Rightarrow> property outcome \<times> store) \<Rightarrow> ctx_store \<Rightarrow> nat \<Rightarrow> nat \<Rightarrow> nat \<Rightarrow> nat
   \<Rightarrow> (jsstring \<times> property) list \<times> property prototype \<Rightarrow> store
   \<Rightarrow> ((jsstring \<times> property) list \<times> property prototype) outcome \<times> store" where
  "parseDictionary_loop_st parse c offset dictoffset len i dict s =
     (if i < len then
        (case objRefAt (view c s) (offset + dictoffset) i of
           Inl e \<Rightarrow> (Some (Inl e), s)
         | Inr keyRef \<Rightarrow>
             (case objRefAt (view c s) (offset + dictoffset + len * refWidth c) i of
                Inl e \<Rightarrow> (Some (Inl e), s)
              | Inr valRef \<Rightarrow>
                  (case parse keyRef s of
                     (None, s1) \<Rightarrow> (None, s1)
                   | (Some (Inl e), s1) \<Rightarrow> (Some (Inl e), s1)
                   | (Some (Inr key), s1) \<Rightarrow>
                       (case key of
                          String k \<Rightarrow>
                            (case parse valRef s1 of
                               (None, s2) \<Rightarrow> (None, s2)
                             | (Some (Inl e), s2) \<Rightarrow> (Some (Inl e), s2)
                             | (Some (Inr val), s2) \<Rightarrow>
                                 (case assign (numeric c) dict k val of
                                    Inl e \<Rightarrow> (Some (Inl e), s2)
                                  | Inr dict' \<Rightarrow>
                                      parseDictionary_loop_st parse c offset dictoffset len (i + 1)
                                        dict' s2))
                        | _ \<Rightarrow> (Some (Inl (Error UnexpectedKeyType)), s1)))))
      else (Some (Inr dict), s))"
  by pat_completeness auto
termination
  by (relation "measure (\<lambda>(parse, c, offset, dictoffset, len, i, dict, s). len - i)") auto

declare parseDictionary_loop_st.simps [simp del]

definition parseDictionary_st ::
  "(nat \<Rightarrow> store \<Rightarrow> property outcome \<times> store) \<Rightarrow> ctx_store \<Rightarrow> nat \<Rightarrow> nat \<Rightarrow> store
   \<Rightarrow> property outcome \<times> store" where
  "parseDictionary_st parse c offset objInfo s =
     (case lengthAndOffset (cells s (bufferAt c)) offset objInfo of
        Inl e \<Rightarrow> (Some (Inl e), s)
      | Inr (len, dictoffset) \<Rightarrow>
          if len * 2 * refWidth c > maxObjectSize then (Some (Inl (Error TooLittleHeapSpace)), s)
          else
            (case parseDictionary_loop_st parse c offset dictoffset len 0 ([], ObjectPrototype) s of
               (None, s1) \<Rightarrow> (None, s1)
             | (Some (Inl e), s1) \<Rightarrow> (Some (Inl e), s1)
             | (Some (Inr (own, proto)), s1) \<Rightarrow> (Some (Inr (Dictionary own proto)), s1)))"

primrec parseObject_st :: "nat \<Rightarrow> ctx_store \<Rightarrow> nat \<Rightarrow> store \<Rightarrow> property outcome \<times> store" where
  "parseObject_st 0 c tableOffset s = (None, s)"
| "parseObject_st (Suc depth) c tableOffset s =
     (let bytes = cells s (bufferAt c);
          type = (case tableEntry (offsets c) tableOffset of
                    None \<Rightarrow> None
                  | Some offset \<Rightarrow> element bytes offset);
          objType = drop_bit 4 (toInt32 type AND 0xF0);
          objInfo = toInt32 type AND 0x0F
      in case tableEntry (offsets c) tableOffset of
           None \<Rightarrow> (Some (parseSimple objType objInfo), s)
         | Some offset \<Rightarrow>
             if objType = 0x0 then (Some (parseSimple objType objInfo), s)
             else if objType = 0x1 then (Some (parseInteger bytes offset objInfo), s)
             else if objType = 0x8 then (Some (parseUID bytes offset objInfo), s)
             else if objType = 0x2 then (Some (parseReal bytes offset objInfo), s)
             else if objType = 0x3 then (Some (parseDate bytes offset objInfo), s)
             else if objType = 0x4 then (Some (parseData bytes offset objInfo), s)
             else if objType = 0x5 then
               (case parsePlistString_st (bufferAt c) offset objInfo False s of
                  (r, s1) \<Rightarrow> (Some r, s1))
             else if objType = 0x6 then
               (case parsePlistString_st (bufferAt c) offset objInfo True s of
                  (r, s1) \<Rightarrow> (Some r, s1))
             else if objType = 0xA then parseArray_st (parseObject_st depth c) c offset objInfo s
             else if objType = 0xD then parseDictionary_st (parseObject_st depth c) c offset objInfo s
             else (Some (Inl (Error (UnhandledType objType))), s))"

definition parseBuffer_st ::
  "(jsstring \<Rightarrow> bool) \<Rightarrow> nat \<Rightarrow> address \<Rightarrow> store \<Rightarrow> property outcome \<times> store" where
  "parseBuffer_st engine depth a s =
     (let input = cells s a;
          header = utf8_decode (subarray input 0 (length ''bplist'')) in
      if header \<noteq> js ''bplist'' then (Some (Inl (Error InvalidBinaryPlist)), s)
      else
        (let trailerOffset = int (length input) - 32 in
         case getUint8 input (trailerOffset + 6) of
           Inl e \<Rightarrow> (Some (Inl e), s)
         | Inr offsetSize \<Rightarrow>
            (case getUint8 input (trailerOffset + 7) of
               Inl e \<Rightarrow> (Some (Inl e), s)
             | Inr refSize \<Rightarrow>
                (case getBigUint64 input (trailerOffset + 8) of
                   Inl e \<Rightarrow> (Some (Inl e), s)
                 | Inr numObjects \<Rightarrow>
                    (case getBigUint64 input (trailerOffset + 16) of
                       Inl e \<Rightarrow> (Some (Inl e), s)
                     | Inr topObject \<Rightarrow>
                        (case getBigUint64 input (trailerOffset + 24) of
                           Inl e \<Rightarrow> (Some (Inl e), s)
                         | Inr offsetTableOffset \<Rightarrow>
                            if numObjects > maxObjectCount then
                              (Some (Inl (Error MaxObjectCountExceeded)), s)
                            else
                              (case offsetTable_loop input offsetTableOffset offsetSize numObjects 0 [] of
                                 Inl e \<Rightarrow> (Some (Inl e), s)
                               | Inr table \<Rightarrow>
                                   parseObject_st depth
                                     \<lparr>bufferAt = a, offsets = table, refWidth = refSize,
                                      numeric = engine\<rparr>
                                     topObject s)))))))"

text \<open>
  \<open>preserved s s'\<close>: every typed array of \<open>s\<close> is in \<open>s'\<close> with the bytes it had, and the
  addresses of \<open>s\<close> are still taken.
\<close>

definition preserved :: "store \<Rightarrow> store \<Rightarrow> bool" where
  "preserved s s' = (fresh s \<le> fresh s' \<and> (\<forall>b < fresh s. cells s' b = cells s b))"

text \<open>
  A list whose one object, at offset 8, is the UTF-16 string \<^verbatim>\<open>hi\<close>: \<^verbatim>\<open>62 00 68 00 69\<close>. And the
  store in which a given input is the one typed array, at address 0.
\<close>

definition plist_string_utf16 :: "byte list" where
  "plist_string_utf16 =
     asciiBytes ''bplist00'' @
     [0x62, 0x00, 0x68, 0x00, 0x69, 0x08, 0x00, 0x00,
      0x00, 0x00, 0x00, 0x00, 0x01, 0x01, 0x00, 0x00,
      0x00, 0x00, 0x00, 0x00, 0x00, 0x01, 0x00, 0x00,
      0x00, 0x00, 0x00, 0x00, 0x00, 0x00, 0x00, 0x00,
      0x00, 0x00, 0x00, 0x00, 0x00, 0x0D]"

definition inputStore :: "byte list \<Rightarrow> store" where
  "inputStore input = \<lparr>cells = (\<lambda>a. [])(0 := input), fresh = 1\<rparr>"

text \<open>
  A list whose one object, at offset 8, is an ASCII string with the count in four bytes,
  200,000,000 (\<^verbatim>\<open>5F 12 0B EB C2 00\<close>), and the one payload byte \<^verbatim>\<open>41\<close> before the offset
  table.
\<close>

definition plist_string_200000000 :: "byte list" where
  "plist_string_200000000 =
     asciiBytes ''bplist00'' @
     [0x5F, 0x12, 0x0B, 0xEB, 0xC2, 0x00, 0x41, 0x08,
      0x00, 0x00, 0x00, 0x00, 0x00, 0x00, 0x01, 0x01,
      0x00, 0x00, 0x00, 0x00, 0x00, 0x00, 0x00, 0x01,
      0x00, 0x00, 0x00, 0x00, 0x00, 0x00, 0x00, 0x00,
      0x00, 0x00, 0x00, 0x00, 0x00, 0x00, 0x00, 0x0F]"

text \<open>
  The key and the value of pair \<open>j\<close> of a dictionary object, when both decode: \<open>keys\<close> and
  \<open>vals\<close> are the offsets of its two reference tables.
\<close>

definition keyOf :: "(nat \<Rightarrow> property outcome) \<Rightarrow> ctx \<Rightarrow> nat \<Rightarrow> nat \<Rightarrow> jsstring option" where
  "keyOf parse ctx keys j =
     (case objRefAt ctx keys j of
        Inl e \<Rightarrow> None
      | Inr r \<Rightarrow> (case parse r of Some (Inr (String k)) \<Rightarrow> Some k | _ \<Rightarrow> None))"

definition valueOf :: "(nat \<Rightarrow> property outcome) \<Rightarrow> ctx \<Rightarrow> nat \<Rightarrow> nat \<Rightarrow> property option" where
  "valueOf parse ctx vals j =
     (case objRefAt ctx vals j of
        Inl e \<Rightarrow> None
      | Inr r \<Rightarrow> (case parse r of Some (Inr v) \<Rightarrow> Some v | _ \<Rightarrow> None))"

text \<open>
  The size an object declares, as the format gives it: for an integer or a real the
  \<^verbatim>\<open>2 ^ objInfo\<close> bytes of its payload, for a UID \<^verbatim>\<open>objInfo + 1\<close> bytes; for data and strings
  the count (two bytes a character in UTF-16), for an array the count times the width of
  a reference, for a dictionary twice that. The count is \<^verbatim>\<open>objInfo\<close>, or with the marker
  \<^verbatim>\<open>0xF\<close> the magnitude of the bytes of the length integer, however many they are.
\<close>

definition declaredCount :: "byte list \<Rightarrow> nat \<Rightarrow> nat \<Rightarrow> nat" where
  "declaredCount bytes offset objInfo =
     (if objInfo = 0xF then
        readUnsignedBigEndian
          (take (2 ^ (toInt32 (element bytes (offset + 1)) AND 0x0F)) (drop (offset + 2) bytes))
      else objInfo)"

definition declaredSize :: "ctx \<Rightarrow> nat \<Rightarrow> nat \<Rightarrow> nat \<Rightarrow> nat" where
  "declaredSize ctx offset objType objInfo =
     (if objType = 0x1 \<or> objType = 0x2 then 2 ^ objInfo
      else if objType = 0x8 then objInfo + 1
      else if objType = 0x4 \<or> objType = 0x5 then declaredCount (buffer ctx) offset objInfo
      else if objType = 0x6 then declaredCount (buffer ctx) offset objInfo * 2
      else if objType = 0xA then declaredCount (buffer ctx) offset objInfo * objectRefSize ctx
      else if objType = 0xD then declaredCount (buffer ctx) offset objInfo * 2 * objectRefSize ctx
      else 0)"

text \<open>
  The same twenty integers with the count of the array in two bytes and references of
  two bytes: object 0, at offset 8, is \<^verbatim>\<open>AF 11 00 14\<close> and the references \<^verbatim>\<open>00 01\<close> to \<^verbatim>\<open>00 14\<close>;
  the integers are at offsets 52, 54, ..., 90 and the offset table is at offset 92.
\<close>

definition plist_array_20_wide :: "byte list" where
  "plist_array_20_wide =
     asciiBytes ''bplist00'' @
     [0xAF, 0x11, 0x00, 0x14, 0x00, 0x01, 0x00, 0x02,
      0x00, 0x03, 0x00, 0x04, 0x00, 0x05, 0x00, 0x06,
      0x00, 0x07, 0x00, 0x08, 0x00, 0x09, 0x00, 0x0A,
      0x00, 0x0B, 0x00, 0x0C, 0x00, 0x0D, 0x00, 0x0E,
      0x00, 0x0F, 0x00, 0x10, 0x00, 0x11, 0x00, 0x12,
      0x00, 0x13, 0x00, 0x14, 0x10, 0x64, 0x10, 0x65,
      0x10, 0x66, 0x10, 0x67, 0x10, 0x68, 0x10, 0x69,
      0x10, 0x6A, 0x10, 0x6B, 0x10, 0x6C, 0x10, 0x6D,
      0x10, 0x6E, 0x10, 0x6F, 0x10, 0x70, 0x10, 0x71,
      0x10, 0x72, 0x10, 0x73, 0x10, 0x74, 0x10, 0x75,
      0x10, 0x76, 0x10, 0x77, 0x08, 0x34, 0x36, 0x38,
      0x3A, 0x3C, 0x3E, 0x40, 0x42, 0x44, 0x46, 0x48,
      0x4A, 0x4C, 0x4E, 0x50, 0x52, 0x54, 0x56, 0x58,
      0x5A, 0x00, 0x00, 0x00, 0x00, 0x00, 0x00, 0x01,
      0x02, 0x00, 0x00, 0x00, 0x00, 0x00, 0x00, 0x00,
      0x15, 0x00, 0x00, 0x00, 0x00, 0x00, 0x00, 0x00,
      0x00, 0x00, 0x00, 0x00, 0x00, 0x00, 0x00, 0x00,
      0x5C]"

definition offsets_array_20_wide :: "nat list" where
  "offsets_array_20_wide =
     [8, 52, 54, 56, 58, 60, 62, 64, 66, 68, 70, 72, 74, 76, 78, 80, 82, 84, 86, 88, 90]"

text \<open>
  The twenty integers with the count of the array in four bytes, \<^verbatim>\<open>AF 12 00 00 00 14\<close>, and
  references of one byte.
\<close>

definition plist_array_20_count_4_bytes :: "byte list" where
  "plist_array_20_count_4_bytes =
     asciiBytes ''bplist00'' @
     [0xAF, 0x12, 0x00, 0x00, 0x00, 0x14, 0x01, 0x02,
      0x03, 0x04, 0x05, 0x06, 0x07, 0x08, 0x09, 0x0A,
      0x0B, 0x0C, 0x0D, 0x0E, 0x0F, 0x10, 0x11, 0x12,
      0x13, 0x14, 0x10, 0x64, 0x10, 0x65, 0x10, 0x66,
      0x10, 0x67, 0x10, 0x68, 0x10, 0x69, 0x10, 0x6A,
      0x10, 0x6B, 0x10, 0x6C, 0x10, 0x6D, 0x10, 0x6E,
      0x10, 0x6F, 0x10, 0x70, 0x10, 0x71, 0x10, 0x72,
      0x10, 0x73, 0x10, 0x74, 0x10, 0x75, 0x10, 0x76,
      0x10, 0x77, 0x08, 0x22, 0x24, 0x26, 0x28, 0x2A,
      0x2C, 0x2E, 0x30, 0x32, 0x34, 0x36, 0x38, 0x3A,
      0x3C, 0x3E, 0x40, 0x42, 0x44, 0x46, 0x48, 0x00,
      0x00, 0x00, 0x00, 0x00, 0x00, 0x01, 0x01, 0x00,
      0x00, 0x00, 0x00, 0x00, 0x00, 0x00, 0x15, 0x00,
      0x00, 0x00, 0x00, 0x00, 0x00, 0x00, 0x00, 0x00,
      0x00, 0x00, 0x00, 0x00, 0x00, 0x00, 0x4A]"

text \<open>
  An array of two integers in the inline form with references of four bytes:
  \<^verbatim>\<open>A2 00 00 00 01 00 00 00 02\<close>.
\<close>

definition plist_array_2_references_4_bytes :: "byte list" where
  "plist_array_2_references_4_bytes =
     asciiBytes ''bplist00'' @
     [0xA2, 0x00, 0x00, 0x00, 0x01, 0x00, 0x00, 0x00,
      0x02, 0x10, 0x64, 0x10, 0x65, 0x08, 0x11, 0x13,
      0x00, 0x00, 0x00, 0x00, 0x00, 0x00, 0x01, 0x04,
      0x00, 0x00, 0x00, 0x00, 0x00, 0x00, 0x00, 0x03,
      0x00, 0x00, 0x00, 0x00, 0x00, 0x00, 0x00, 0x00,
      0x00, 0x00, 0x00, 0x00, 0x00, 0x00, 0x00, 0x15]"

section \<open>Properties of the platform operations\<close>

lemma subarray_take_drop: "subarray bs start finish = take (finish - start) (drop start bs)"
  by (cases "start \<le> length bs") (auto simp: subarray_def Let_def min_def take_all_iff)

lemma header_accepted:
  assumes "take 6 input = asciiBytes ''bplist''"
  shows "utf8_decode (subarray input 0 (length ''bplist'')) = js ''bplist''"
proof -
  have l: "length ''bplist'' = 6"
    by simp
  have "subarray input 0 (length ''bplist'') = take 6 input"
    unfolding l by (simp add: subarray_take_drop)
  then show ?thesis
    unfolding assms
    by (simp add: asciiBytes_def utf8_decode_def utf8_loop.simps stripBOM_def codeUnits_def js_def)
qed

section \<open>The object-count ceiling\<close>

text \<open>
  Claim C4. An input that starts with the magic, is long enough to hold the 32-byte
  trailer, and whose trailer declares more than \<^verbatim>\<open>maxObjectCount = 32768\<close> objects (bytes 8
  to 15 of the trailer, big-endian) makes \<^verbatim>\<open>parseBuffer\<close> fail with
  \<^verbatim>\<open>maxObjectCount exceeded\<close>. The offset table is not read and no object is decoded: the
  result holds whatever the rest of the input and the trailer contain and for every
  depth, the depth 0 included.
\<close>

theorem parseBuffer_maxObjectCount:
  assumes "take 6 input = asciiBytes ''bplist''"
      and "32 \<le> length input"
      and "32768 < bigEndian (subarray input (length input - 24) (length input - 16))"
  shows "parseBuffer engine depth input = Some (Inl (Error MaxObjectCountExceeded))"
proof -
  have n: "nat (int (length input) - 24) = length input - 24"
    using assms(2) by auto
  have s: "subarray input (length input - 24) (length input - 16)
             = take 8 (drop (length input - 24) input)"
    using assms(2) by (simp add: subarray_take_drop)
  show ?thesis
    using assms(2,3) header_accepted[OF assms(1)]
    by (simp add: parseBuffer_def Let_def getUint8_def getBigUint64_def viewBytes_def
          maxObjectCount_def n s)
qed

theorem parseBuffer_maxObjectCount_witness:
  "take 6 plist_40000_objects = asciiBytes ''bplist''
   \<and> 32 \<le> length plist_40000_objects
   \<and> 32768 < bigEndian (subarray plist_40000_objects (length plist_40000_objects - 24)
                 (length plist_40000_objects - 16))
   \<and> parseBuffer (\<lambda>k. False) 0 plist_40000_objects = Some (Inl (Error MaxObjectCountExceeded))"
proof -
  have h1: "take 6 plist_40000_objects = asciiBytes ''bplist''"
    by (simp add: plist_40000_objects_def asciiBytes_def)
  have h2: "32 \<le> length plist_40000_objects"
    by (simp add: plist_40000_objects_def asciiBytes_def)
  have h3: "32768 < bigEndian (subarray plist_40000_objects (length plist_40000_objects - 24)
                        (length plist_40000_objects - 16))"
    by (simp add: plist_40000_objects_def asciiBytes_def subarray_take_drop bigEndian_def)
  show ?thesis
    using h1 h2 h3 parseBuffer_maxObjectCount[OF h1 h2 h3] by simp
qed

section \<open>Big-endian magnitudes and hexadecimal digits\<close>

lemma foldl_bigEndian_acc:
  "foldl (\<lambda>acc b. acc * 256 + unat b) a bs
     = a * 256 ^ length bs + foldl (\<lambda>acc b. acc * 256 + unat b) 0 (bs :: byte list)"
proof (induction bs arbitrary: a)
  case Nil
  show ?case by simp
next
  case (Cons b bs)
  let ?f = "\<lambda>acc (b::byte). acc * 256 + unat b"
  have 1: "foldl ?f (a * 256 + unat b) bs = (a * 256 + unat b) * 256 ^ length bs + foldl ?f 0 bs"
    by (rule Cons.IH)
  have 2: "foldl ?f (unat b) bs = unat b * 256 ^ length bs + foldl ?f 0 bs"
    by (rule Cons.IH)
  have "foldl ?f a (b # bs) = foldl ?f (a * 256 + unat b) bs"
    by simp
  moreover have "foldl ?f 0 (b # bs) = foldl ?f (unat b) bs"
    by simp
  ultimately show ?case
    unfolding 1 2 by (simp add: algebra_simps)
qed

lemma bigEndian_Cons: "bigEndian (b # bs) = unat b * 256 ^ length bs + bigEndian bs"
  by (simp add: bigEndian_def foldl_bigEndian_acc[of "unat b"])

lemma bigEndian_positional: "bigEndian bs = readUnsignedBigEndian bs"
proof (induction bs)
  case Nil
  show ?case by (simp add: bigEndian_def readUnsignedBigEndian_def)
next
  case (Cons b bs)
  let ?g = "\<lambda>i. unat ((b # bs) ! i) * 256 ^ (length (b # bs) - 1 - i)"
  have "(\<Sum>i<Suc (length bs). ?g i) = ?g 0 + (\<Sum>i<length bs. ?g (Suc i))"
    by (rule sum.lessThan_Suc_shift)
  then have "readUnsignedBigEndian (b # bs)
          = unat b * 256 ^ length bs + (\<Sum>i<length bs. unat (bs ! i) * 256 ^ (length bs - Suc i))"
    unfolding readUnsignedBigEndian_def by simp
  then show ?case
    using Cons.IH by (simp add: bigEndian_Cons readUnsignedBigEndian_def)
qed

lemma readUInt_cases:
  "readUInt bs = (if length bs = 1 \<or> length bs = 2 then Inr (bigEndian bs)
                  else Inl (Error (UnexpectedUintLength (length bs))))"
  by (auto simp: readUInt_def getUint8_def getUint16_def viewBytes_def)

lemma bigEndian_dropWhile_zero: "bigEndian (dropWhile (\<lambda>b. b = 0) bs) = bigEndian bs"
  by (induction bs) (simp_all add: bigEndian_Cons)

lemma hexDigit_0: "hexDigit 0 = CHR ''0''"
  by (simp add: hexDigit_def)

lemma toString16_byte:
  assumes "n < 256"
  shows "(let part = ''00'' @ toString16 n in drop (length part - 2) part)
           = [hexDigit (n div 16), hexDigit (n mod 16)]"
proof (cases "n < 16")
  case True
  then show ?thesis by (simp add: toString16.simps[of n] hexDigit_0)
next
  case False
  with assms have "n div 16 < 16" by simp
  with False show ?thesis
    by (simp add: toString16.simps[of n] toString16.simps[of "n div 16"])
qed

lemma hexValue_hexDigit:
  assumes "d < 16"
  shows "hexValue (hexDigit d) = Some d"
proof -
  have "\<forall>d \<in> set [0..<16]. hexValue (hexDigit d) = Some d"
    by (simp add: upt_conv_Cons hexValue_def hexDigit_def Let_def)
  with assms show ?thesis by simp
qed

lemma hexDigits_bytes:
  "hexDigits acc (concat (map (\<lambda>b. [hexDigit (unat b div 16), hexDigit (unat b mod 16)]) bs))
     = Some (foldl (\<lambda>acc b. acc * 256 + unat b) acc (bs :: byte list))"
proof (induction bs arbitrary: acc)
  case Nil
  show ?case by simp
next
  case (Cons b bs)
  have "unat b < 256"
    using unsigned_less[of b, where 'a = nat] by simp
  then have d: "unat b div 16 < 16" "unat b mod 16 < 16"
    by simp_all
  show ?case
    by (simp add: hexValue_hexDigit[OF d(1)] hexValue_hexDigit[OF d(2)] Cons.IH)
      (simp add: ac_simps)
qed

lemma bufferToHexString_hex:
  "bufferToHexString bs
     = concat (map (\<lambda>b. [hexDigit (unat b div 16), hexDigit (unat b mod 16)])
         (dropWhile (\<lambda>b. b = 0) bs))"
proof -
  have "\<And>b :: byte. (let part = ''00'' @ toString16 (unat b) in drop (length part - 2) part)
          = [hexDigit (unat b div 16), hexDigit (unat b mod 16)]"
  proof -
    fix b :: byte
    have "unat b < 256" using unsigned_less[of b, where 'a = nat] by simp
    then show "(let part = ''00'' @ toString16 (unat b) in drop (length part - 2) part)
          = [hexDigit (unat b div 16), hexDigit (unat b mod 16)]"
      by (rule toString16_byte)
  qed
  then show ?thesis
    by (simp add: bufferToHexString_def)
qed

lemma bufferToHexString_empty: "bufferToHexString bs = [] \<longleftrightarrow> (\<forall>b \<in> set bs. b = 0)"
  by (induction bs) (auto simp: bufferToHexString_hex)

lemma BigInt_0x_bufferToHexString:
  "BigInt_0x (bufferToHexString bs)
     = (if \<forall>b \<in> set bs. b = 0 then Inl SyntaxError else Inr (bigEndian bs))"
proof (cases "\<forall>b \<in> set bs. b = 0")
  case True
  then show ?thesis
    using bufferToHexString_empty[of bs] by (simp add: BigInt_0x_def)
next
  case False
  then have "bufferToHexString bs \<noteq> []"
    using bufferToHexString_empty[of bs] by simp
  moreover have "hexDigits 0 (bufferToHexString bs) = Some (bigEndian bs)"
    using bigEndian_dropWhile_zero[of bs]
    by (simp add: bufferToHexString_hex hexDigits_bytes bigEndian_def)
  ultimately show ?thesis
    using False by (simp add: BigInt_0x_def)
qed

section \<open>Evaluating the parser on a given input\<close>

lemmas eval_defs =
  parseBuffer_def Let_def asciiBytes_def subarray_take_drop utf8_decode_def utf16be_decode_def
  utf8_loop.simps utf16_loop.simps
  stripBOM_def codeUnits_def js_def getUint8_def getUint16_def getBigUint64_def viewBytes_def
  bigEndian_def maxObjectCount_def maxObjectSize_def offsetTable_loop.simps readUInt_def
  tableEntry_def element_def toInt32_def parseSimple_def parseArray_def parseDictionary_def
  parseArray_loop.simps parseDictionary_loop.simps objRefAt_def lengthAndOffset_def

section \<open>Integers\<close>

lemma parseInteger_16:
  "parseInteger bs offset 4
     = (if \<forall>b \<in> set (subarray bs (offset + 1) (offset + 1 + 16)). b = 0 then Inl SyntaxError
        else Inr (BigInteger (bigEndian (subarray bs (offset + 1) (offset + 1 + 16)))))"
  by (simp add: parseInteger_def Let_def maxObjectSize_def BigInt_0x_bufferToHexString)

text \<open>
  Claim C5. An integer object with a 16-byte payload (\<^verbatim>\<open>objInfo = 4\<close>) decodes to the
  unsigned big-endian magnitude of the payload, as a \<^verbatim>\<open>bigint\<close> and without sign extension,
  for every payload but one: when all sixteen bytes are zero the hexadecimal text is
  empty and \<^verbatim>\<open>BigInt("0x")\<close> throws a \<^verbatim>\<open>SyntaxError\<close>, where the claim promises the
  magnitude 0.
\<close>

theorem parseInteger_16_bytes:
  "length payload = 16 \<Longrightarrow>
   parseInteger (before @ [0x14] @ payload @ after) (length before) 4
     = (if payload = replicate 16 0 then Inl SyntaxError
        else Inr (BigInteger (readUnsignedBigEndian payload)))"
proof -
  assume l: "length payload = 16"
  have s: "subarray (before @ [0x14] @ payload @ after) (length before + 1) (length before + 1 + 16)
             = payload"
    using l by (simp add: subarray_take_drop)
  have z: "(\<forall>b \<in> set payload. b = 0) \<longleftrightarrow> payload = replicate 16 0"
    using l by (metis in_set_replicate replicate_eqI)
  show ?thesis
    unfolding parseInteger_16 s z by (simp add: bigEndian_positional)
qed

theorem parseInteger_16_bytes_witness:
  "length (replicate 16 (0 :: byte)) = 16
   \<and> parseInteger (asciiBytes ''bplist00'' @ [0x14] @ replicate 16 0 @ [0x08])
         (length (asciiBytes ''bplist00'')) 4 = Inl SyntaxError
   \<and> parseBuffer (\<lambda>k. False) (Suc 0) plist_integer_16_zero_bytes = Some (Inl SyntaxError)
   \<and> parseInteger ([] @ [0x14] @ replicate 16 0xFF @ []) (length ([] :: byte list)) 4
         = Inr (BigInteger (2 ^ 128 - 1))"
proof -
  have l0: "length (replicate 16 (0 :: byte)) = 16" and l1: "length (replicate 16 (0xFF :: byte)) = 16"
    by simp_all
  have ne: "replicate 16 (0xFF :: byte) \<noteq> replicate 16 0"
    by simp
  have "replicate 16 (0xFF :: byte)
          = [0xFF, 0xFF, 0xFF, 0xFF, 0xFF, 0xFF, 0xFF, 0xFF, 0xFF, 0xFF, 0xFF, 0xFF, 0xFF, 0xFF, 0xFF, 0xFF]"
    by (simp add: eval_nat_numeral)
  then have "bigEndian (replicate 16 0xFF) = 2 ^ 128 - 1"
    by (simp add: bigEndian_def)
  then have ones: "readUnsignedBigEndian (replicate 16 0xFF) = 2 ^ 128 - 1"
    by (simp add: bigEndian_positional)
  have whole: "parseBuffer (\<lambda>k. False) (Suc 0) plist_integer_16_zero_bytes = Some (Inl SyntaxError)"
    by (simp add: eval_defs plist_integer_16_zero_bytes_def parseInteger_def bufferToHexString_def
          BigInt_0x_def)
  show ?thesis
    using parseInteger_16_bytes[OF l0, of "asciiBytes ''bplist00''" "[0x08]"]
          parseInteger_16_bytes[OF l1, of "[]" "[]"] ne ones whole
    by simp
qed

text \<open>
  Claim C10. An integer object whose sixteen payload bytes are all zero does not decode
  to 0: \<^verbatim>\<open>bufferToHexString\<close> strips every byte and returns the empty string, and
  \<^verbatim>\<open>BigInt("0x")\<close> throws a \<^verbatim>\<open>SyntaxError\<close>, which is what \<^verbatim>\<open>parseObject\<close> ends with for that
  object at every depth. (\<^verbatim>\<open>parseBuffer\<close> returns what \<^verbatim>\<open>parseObject\<close> returns for the top
  object, and the loops of the containers pass an element's error on.)
\<close>

theorem parseObject_integer_16_zero_bytes:
  assumes "tableEntry (offsetTable ctx) tableOffset = Some offset"
      and "element (buffer ctx) offset = Some 0x14"
      and "subarray (buffer ctx) (offset + 1) (offset + 1 + 16) = replicate 16 0"
  shows "bufferToHexString (replicate 16 0) = []
         \<and> parseObject (Suc depth) ctx tableOffset = Some (Inl SyntaxError)"
proof -
  have "parseInteger (buffer ctx) offset 4 = Inl SyntaxError"
    unfolding parseInteger_16 assms(3) by simp
  moreover have "drop_bit 4 ((0x14::nat) AND 0xF0) = 1" "(0x14::nat) AND 0x0F = 4"
    by simp_all
  ultimately show ?thesis
    using assms(1,2) by (simp add: toInt32_def Let_def bufferToHexString_empty)
qed

theorem parseObject_integer_16_zero_bytes_witness:
  "tableEntry [8, 10] 1 = Some 10
   \<and> element plist_array_of_zero_integer 10 = Some 0x14
   \<and> subarray plist_array_of_zero_integer (10 + 1) (10 + 1 + 16) = replicate 16 0
   \<and> parseObject (Suc 0)
         \<lparr>buffer = plist_array_of_zero_integer, offsetTable = [8, 10], objectRefSize = 1,
          canonical = (\<lambda>k. False)\<rparr> 1 = Some (Inl SyntaxError)
   \<and> parseBuffer (\<lambda>k. False) (Suc (Suc 0)) plist_array_of_zero_integer = Some (Inl SyntaxError)"
proof -
  let ?ctx = "\<lparr>buffer = plist_array_of_zero_integer, offsetTable = [8, 10], objectRefSize = 1,
               canonical = (\<lambda>k. False)\<rparr>"
  have h1: "tableEntry (offsetTable ?ctx) 1 = Some 10"
    by (simp add: tableEntry_def)
  have h2: "element (buffer ?ctx) 10 = Some 0x14"
    by (simp add: element_def plist_array_of_zero_integer_def asciiBytes_def)
  have "replicate 16 (0 :: byte) = [0, 0, 0, 0, 0, 0, 0, 0, 0, 0, 0, 0, 0, 0, 0, 0]"
    by (simp add: eval_nat_numeral)
  then have h3: "subarray (buffer ?ctx) (10 + 1) (10 + 1 + 16) = replicate 16 0"
    by (simp add: subarray_take_drop plist_array_of_zero_integer_def asciiBytes_def)
  have element: "parseObject (Suc 0) ?ctx 1 = Some (Inl SyntaxError)"
    using parseObject_integer_16_zero_bytes[OF h1 h2 h3, of 0] by simp
  have "parseBuffer (\<lambda>k. False) (Suc (Suc 0)) plist_array_of_zero_integer
          = parseArray (parseObject (Suc 0) ?ctx) ?ctx 8 1"
    by (simp add: eval_defs plist_array_of_zero_integer_def del: parseObject.simps(2))
       (simp add: eval_defs)
  also have "\<dots> = Some (Inl SyntaxError)"
    using element
    by (simp add: eval_defs plist_array_of_zero_integer_def del: parseObject.simps)
  finally show ?thesis
    using h1 h2 h3 element by simp
qed

section \<open>The integer reader\<close>

text \<open>
  Claim C6, as amended. \<^verbatim>\<open>readUInt\<close>, the reader of offset-table entries, object references,
  extended lengths and UID payloads, returns the unsigned big-endian magnitude of a slice
  of one or two bytes, and throws \<^verbatim>\<open>Unexpected Uint value length\<close> for a slice of any other
  length, the empty slice included. So it serves the widths 1 and 2 only.
\<close>

theorem readUInt_one_or_two_bytes:
  "readUInt bytes
     = (if length bytes = 1 \<or> length bytes = 2 then Inr (readUnsignedBigEndian bytes)
        else Inl (Error (UnexpectedUintLength (length bytes))))"
  by (simp add: readUInt_cases bigEndian_positional)

text \<open>
  The claim as stated fails at a slice of three bytes: the magnitude of \<^verbatim>\<open>00 00 01\<close> is 1,
  and \<^verbatim>\<open>readUInt\<close> throws.
\<close>

theorem readUInt_three_bytes_counterexample:
  "readUInt [0x00, 0x00, 0x01] = Inl (Error (UnexpectedUintLength 3))
   \<and> readUnsignedBigEndian [0x00, 0x00, 0x01] = 1"
  by (simp add: readUInt_def readUnsignedBigEndian_def)

section \<open>The header check\<close>

text \<open>
  The header is compared as text: the first six bytes are decoded as UTF-8 and the
  result must be the string \<^verbatim>\<open>bplist\<close>. The decoder gives that string for the six ASCII
  bytes only: every other byte sequence of at most six bytes yields a replacement
  character, a code point from \<open>0x80\<close> on, or fewer than six characters.
\<close>

lemma and_3F: "(x::nat) AND 0x3F = x mod 64"
proof -
  have m: "mask 6 = (0x3F::nat)"
    by (simp add: mask_eq_exp_minus_1)
  have "x AND mask 6 = x mod 2 ^ 6"
    by (simp only: take_bit_eq_mask[symmetric] take_bit_eq_mod)
  then show ?thesis
    unfolding m by simp
qed

lemma and_1F: "(x::nat) AND 0x1F = x mod 32"
proof -
  have m: "mask 5 = (0x1F::nat)"
    by (simp add: mask_eq_exp_minus_1)
  have "x AND mask 5 = x mod 2 ^ 5"
    by (simp only: take_bit_eq_mask[symmetric] take_bit_eq_mod)
  then show ?thesis
    unfolding m by simp
qed

lemma and_F: "(x::nat) AND 0xF = x mod 16"
proof -
  have m: "mask 4 = (0xF::nat)"
    by (simp add: mask_eq_exp_minus_1)
  have "x AND mask 4 = x mod 2 ^ 4"
    by (simp only: take_bit_eq_mask[symmetric] take_bit_eq_mod)
  then show ?thesis
    unfolding m by simp
qed

lemma and_7: "(x::nat) AND 0x7 = x mod 8"
proof -
  have m: "mask 3 = (0x7::nat)"
    by (simp add: mask_eq_exp_minus_1)
  have "x AND mask 3 = x mod 2 ^ 3"
    by (simp only: take_bit_eq_mask[symmetric] take_bit_eq_mod)
  then show ?thesis
    unfolding m by simp
qed

lemma mod_range:
  assumes "k * n \<le> (m::nat)" and "m < k * n + n"
  shows "m mod n = m - k * n"
proof -
  from assms(1) obtain r where r: "m = k * n + r"
    by (auto simp: le_iff_add)
  with assms(2) have "r < n" by simp
  with r show ?thesis by simp
qed



lemma pending_first:
  "pending cp needed lower upper \<Longrightarrow>
   \<exists>c rest. utf8_loop cp needed lower upper bs = c # utf8_loop 0 0 0x80 0xBF rest
           \<and> length rest \<le> length bs \<and> 0x80 \<le> c \<and> c \<le> 0x1FFFFF"
proof (induction bs arbitrary: cp needed lower upper)
  case Nil
  then have "needed \<noteq> 0" by (auto simp: pending_def)
  then have "utf8_loop cp needed lower upper [] = 0xFFFD # utf8_loop 0 0 0x80 0xBF []"
    by (simp add: utf8_loop.simps)
  then show ?case by (intro exI[of _ "0xFFFD"] exI[of _ "[]"]) simp
next
  case (Cons b bs)
  let ?byte = "unat b"
  from Cons.prems have n0: "needed \<noteq> 0" by (auto simp: pending_def)
  show ?case
  proof (cases "?byte < lower \<or> upper < ?byte")
    case True
    with n0 have "utf8_loop cp needed lower upper (b # bs) = 0xFFFD # utf8_loop 0 0 0x80 0xBF (b # bs)"
      by (subst utf8_loop.simps(2)) (simp add: Let_def)
    then show ?thesis by (intro exI[of _ "0xFFFD"] exI[of _ "b # bs"]) simp
  next
    case False
    let ?cp = "cp * 64 + ?byte mod 64"
    from False Cons.prems have range: "0x80 \<le> ?byte" "?byte \<le> 0xBF" "lower \<le> ?byte"
      by (auto simp: pending_def)
    show ?thesis
    proof (cases "needed = 1")
      case True
      with False have "utf8_loop cp needed lower upper (b # bs) = ?cp # utf8_loop 0 0 0x80 0xBF bs"
        by (subst utf8_loop.simps(2)) (simp add: Let_def and_3F)
      moreover from True Cons.prems have "0x80 \<le> ?cp" "?cp \<le> 0x1FFFFF"
        by (auto simp: pending_def)
      ultimately show ?thesis by (intro exI[of _ "?cp"] exI[of _ "bs"]) simp
    next
      case False
      with n0 \<open>\<not> (?byte < lower \<or> upper < ?byte)\<close>
      have step: "utf8_loop cp needed lower upper (b # bs) = utf8_loop ?cp (needed - 1) 0x80 0xBF bs"
        by (subst utf8_loop.simps(2)) (simp add: Let_def and_3F)
      have "?byte mod 64 = (?byte - 64) mod 64"
        using range by (simp add: le_mod_geq)
      also have "\<dots> = (?byte - 64 - 64) mod 64"
        using range by (simp add: le_mod_geq)
      also have "\<dots> = ?byte - 128"
        using range by simp
      finally have m: "?byte mod 64 = ?byte - 128" .
      have "pending ?cp (needed - 1) 0x80 0xBF"
        using Cons.prems False range unfolding pending_def m by arith
      from Cons.IH[OF this] obtain c rest where
        "utf8_loop ?cp (needed - 1) 0x80 0xBF bs = c # utf8_loop 0 0 0x80 0xBF rest"
        "length rest \<le> length bs" "0x80 \<le> c" "c \<le> 0x1FFFFF"
        by blast
      with step show ?thesis by (intro exI[of _ c] exI[of _ rest]) simp
    qed
  qed
qed

lemma start_nonascii:
  assumes "0x80 \<le> unat b"
  shows "\<exists>c rest. utf8_loop 0 0 0x80 0xBF (b # bs) = c # utf8_loop 0 0 0x80 0xBF rest
           \<and> length rest \<le> length bs \<and> 0x80 \<le> c \<and> c \<le> 0x1FFFFF"
proof -
  let ?byte = "unat b"
  consider (two) "0xC2 \<le> ?byte \<and> ?byte \<le> 0xDF"
    | (three) "0xE0 \<le> ?byte \<and> ?byte \<le> 0xEF"
    | (four) "0xF0 \<le> ?byte \<and> ?byte \<le> 0xF4"
    | (bad) "(0xC2 \<le> ?byte \<and> ?byte \<le> 0xDF) = False" "(0xE0 \<le> ?byte \<and> ?byte \<le> 0xEF) = False"
            "(0xF0 \<le> ?byte \<and> ?byte \<le> 0xF4) = False"
    by blast
  then show ?thesis
  proof cases
    case two
    with assms have step: "utf8_loop 0 0 0x80 0xBF (b # bs) = utf8_loop (?byte mod 32) 1 0x80 0xBF bs"
      by (subst utf8_loop.simps(2)) (simp add: Let_def and_1F)
    have "?byte mod 32 = ?byte - 6 * 32"
      using two by (intro mod_range) simp_all
    then have "pending (?byte mod 32) 1 0x80 0xBF"
      using two unfolding pending_def by arith
    from pending_first[OF this, of bs] step show ?thesis
      by auto
  next
    case three
    let ?lower = "if ?byte = 0xE0 then 0xA0 else 0x80 :: nat"
    let ?upper = "if ?byte = 0xED then 0x9F else 0xBF :: nat"
    from three assms have step:
      "utf8_loop 0 0 0x80 0xBF (b # bs) = utf8_loop (?byte mod 16) 2 ?lower ?upper bs"
      by (subst utf8_loop.simps(2)) (simp add: Let_def and_F)
    have "?byte mod 16 = ?byte - 14 * 16"
      using three by (intro mod_range) simp_all
    then have "pending (?byte mod 16) 2 ?lower ?upper"
      using three unfolding pending_def by auto
    from pending_first[OF this, of bs] step show ?thesis
      by auto
  next
    case four
    let ?lower = "if ?byte = 0xF0 then 0x90 else 0x80 :: nat"
    let ?upper = "if ?byte = 0xF4 then 0x8F else 0xBF :: nat"
    from four assms have step:
      "utf8_loop 0 0 0x80 0xBF (b # bs) = utf8_loop (?byte mod 8) 3 ?lower ?upper bs"
      by (subst utf8_loop.simps(2)) (simp add: Let_def and_7)
    have "?byte mod 8 = ?byte - 30 * 8"
      using four by (intro mod_range) simp_all
    then have "pending (?byte mod 8) 3 ?lower ?upper"
      using four unfolding pending_def by auto
    from pending_first[OF this, of bs] step show ?thesis
      by auto
  next
    case bad
    from assms have "utf8_loop 0 0 0x80 0xBF (b # bs) = 0xFFFD # utf8_loop 0 0 0x80 0xBF bs"
      by (subst utf8_loop.simps(2)) (simp add: Let_def bad)
    then show ?thesis
      by (intro exI[of _ "0xFFFD"] exI[of _ bs]) simp
  qed
qed

lemma start_ascii:
  assumes "unat b < 0x80"
  shows "utf8_loop 0 0 0x80 0xBF (b # bs) = unat b # utf8_loop 0 0 0x80 0xBF bs"
  using assms by (subst utf8_loop.simps(2)) (simp add: Let_def)


lemma codeUnits_nonascii:
  assumes "0x80 \<le> c" and "c \<le> 0x1FFFFF"
  shows "\<exists>u us. codeUnits c = u # us \<and> 0x80 \<le> unat u"
proof (cases "c < 0x10000")
  case True
  then have "unat (of_nat c :: 16 word) = c"
    by (simp add: unat_of_nat)
  with assms True show ?thesis
    by (simp add: codeUnits_def)
next
  case False
  let ?u = "0xD800 + (c - 0x10000) div 0x400"
  from assms False have "?u < 0x10000" "0x80 \<le> ?u"
    by simp_all
  then have "0x80 \<le> unat (of_nat ?u :: 16 word)"
    by (subst unat_of_nat) simp
  with False show ?thesis
    by (simp add: codeUnits_def)
qed



lemma unat_of_nat_16: "n < 0x10000 \<Longrightarrow> unat (of_nat n :: 16 word) = n"
  by (subst unat_of_nat) simp

lemma utf8_ascii_only:
  "length bs \<le> length t \<Longrightarrow> \<forall>a \<in> set t. a < 0x80 \<Longrightarrow>
   concat (map codeUnits (utf8_loop 0 0 0x80 0xBF bs)) = map of_nat t \<Longrightarrow> map unat bs = t"
proof (induction bs arbitrary: t)
  case Nil
  then show ?case by (simp add: utf8_loop.simps)
next
  case (Cons b bs)
  show ?case
  proof (cases "unat b < 0x80")
    case True
    have cu: "codeUnits (unat b) = [of_nat (unat b)]"
      using True by (simp add: codeUnits_def)
    have eq: "(of_nat (unat b) :: 16 word) # concat (map codeUnits (utf8_loop 0 0 0x80 0xBF bs))
                = map of_nat t"
      using Cons.prems(3) unfolding start_ascii[OF True] list.map concat.simps cu by simp
    then obtain a t' where t: "t = a # t'"
      by (cases t) simp_all
    from eq have hd: "(of_nat (unat b) :: 16 word) = of_nat a"
      and tl: "concat (map codeUnits (utf8_loop 0 0 0x80 0xBF bs)) = map of_nat t'"
      unfolding t list.map by blast+
    from Cons.prems(2) t have a: "a < 0x80" by simp
    have f1: "unat (of_nat (unat b) :: 16 word) = unat b"
      using True by (intro unat_of_nat_16) simp
    have f2: "unat (of_nat a :: 16 word) = a"
      using a by (intro unat_of_nat_16) simp
    have "unat b = unat (of_nat (unat b) :: 16 word)"
      by (rule f1[symmetric])
    also have "\<dots> = unat (of_nat a :: 16 word)"
      by (simp only: hd)
    also have "\<dots> = a"
      by (rule f2)
    finally have "unat b = a" .
    moreover have "map unat bs = t'"
    proof (rule Cons.IH)
      show "length bs \<le> length t'" using Cons.prems(1) t by simp
      show "\<forall>a \<in> set t'. a < 0x80" using Cons.prems(2) t by simp
      show "concat (map codeUnits (utf8_loop 0 0 0x80 0xBF bs)) = map of_nat t'" by (rule tl)
    qed
    ultimately show ?thesis
      using t by simp
  next
    case False
    then have "0x80 \<le> unat b" by simp
    from start_nonascii[OF this, of bs] obtain c rest where
      out: "utf8_loop 0 0 0x80 0xBF (b # bs) = c # utf8_loop 0 0 0x80 0xBF rest"
      and c: "0x80 \<le> c" "c \<le> 0x1FFFFF"
      by blast
    from codeUnits_nonascii[OF c] obtain u us where u: "codeUnits c = u # us" "0x80 \<le> unat u"
      by blast
    have eq: "u # (us @ concat (map codeUnits (utf8_loop 0 0 0x80 0xBF rest))) = map of_nat t"
      using Cons.prems(3) unfolding out list.map concat.simps u by simp
    then obtain a t' where t: "t = a # t'"
      by (cases t) simp_all
    from eq have hd: "u = of_nat a"
      unfolding t list.map by blast
    from Cons.prems(2) t have a: "a < 0x80" by simp
    have "unat (of_nat a :: 16 word) = a"
      using a by (intro unat_of_nat_16) simp
    then have "unat u = a"
      by (simp only: hd)
    with u(2) a show ?thesis
      by simp
  qed
qed


lemma header_rejected:
  assumes len: "length bs \<le> 6" and dec: "utf8_decode bs = js ''bplist''"
  shows "bs = asciiBytes ''bplist''"
proof -
  let ?t = "[98, 112, 108, 105, 115, 116] :: nat list"
  have js: "js ''bplist'' = map of_nat ?t"
    by (simp add: js_def)
  have t: "length ?t = 6" "\<forall>a \<in> set ?t. a < 0x80"
    by simp_all
  have ascii: "map unat bs = ?t \<Longrightarrow> bs = asciiBytes ''bplist''" for bs :: "byte list"
  proof -
    assume "map unat bs = ?t"
    then have "map of_nat (map unat bs) = (map of_nat ?t :: byte list)"
      by (rule arg_cong)
    then show "bs = asciiBytes ''bplist''"
      by (simp add: asciiBytes_def o_def)
  qed
  show ?thesis
  proof (cases bs)
    case Nil
    with dec show ?thesis
      by (simp add: utf8_decode_def utf8_loop.simps stripBOM_def js_def)
  next
    case (Cons b bs')
    show ?thesis
    proof (cases "unat b < 0x80")
      case True
      then have "stripBOM (utf8_loop 0 0 0x80 0xBF bs) = utf8_loop 0 0 0x80 0xBF bs"
        unfolding Cons start_ascii[OF True] by (simp add: stripBOM_def)
      with dec have "concat (map codeUnits (utf8_loop 0 0 0x80 0xBF bs)) = map of_nat ?t"
        by (simp only: utf8_decode_def js)
      from utf8_ascii_only[OF _ t(2) this] len show ?thesis
        by (intro ascii) simp
    next
      case False
      then have "0x80 \<le> unat b" by simp
      from start_nonascii[OF this, of bs'] obtain c rest where
        out: "utf8_loop 0 0 0x80 0xBF bs = c # utf8_loop 0 0 0x80 0xBF rest"
        and rest: "length rest \<le> length bs'"
        unfolding Cons by blast
      show ?thesis
      proof (cases "c = 0xFEFF")
        case True
        then have "stripBOM (utf8_loop 0 0 0x80 0xBF bs) = utf8_loop 0 0 0x80 0xBF rest"
          unfolding out by (simp add: stripBOM_def)
        with dec have "concat (map codeUnits (utf8_loop 0 0 0x80 0xBF rest)) = map of_nat ?t"
          by (simp only: utf8_decode_def js)
        moreover have "length rest \<le> length ?t"
          using rest len Cons by simp
        ultimately have "map unat rest = ?t"
          using t(2) by (intro utf8_ascii_only)
        then have "length rest = 6"
          by (metis t(1) length_map)
        with rest len Cons show ?thesis
          by simp
      next
        case c: False
        then have "stripBOM (utf8_loop 0 0 0x80 0xBF bs) = utf8_loop 0 0 0x80 0xBF bs"
          unfolding out by (simp add: stripBOM_def)
        with dec have "concat (map codeUnits (utf8_loop 0 0 0x80 0xBF bs)) = map of_nat ?t"
          by (simp only: utf8_decode_def js)
        moreover have "length bs \<le> length ?t"
          using len by simp
        ultimately have "map unat bs = ?t"
          using t(2) by (intro utf8_ascii_only)
        with Cons False show ?thesis
          by simp
      qed
    qed
  qed
qed

text \<open>
  Claim C2, as amended. \<^verbatim>\<open>parseBuffer\<close> fails with \<^verbatim>\<open>Invalid binary plist\<close> whenever the
  first six bytes are not exactly the ASCII bytes of \<^verbatim>\<open>bplist\<close>, which includes every input
  shorter than six bytes. There is no check of the length: an input that starts with the
  magic and has fewer than 26 bytes fails with the \<^verbatim>\<open>RangeError\<close> of the first trailer
  read, an out-of-bounds fault of the \<^verbatim>\<open>DataView\<close>.
\<close>

theorem parseBuffer_header:
  "(take 6 input \<noteq> asciiBytes ''bplist''
      \<longrightarrow> parseBuffer engine depth input = Some (Inl (Error InvalidBinaryPlist)))
   \<and> (take 6 input = asciiBytes ''bplist'' \<and> length input < 26
      \<longrightarrow> parseBuffer engine depth input = Some (Inl RangeError))"
proof (intro conjI impI)
  have l: "length ''bplist'' = 6"
    by simp
  have sub: "subarray input 0 (length ''bplist'') = take 6 input"
    unfolding l by (simp add: subarray_take_drop)
  {
    assume "take 6 input \<noteq> asciiBytes ''bplist''"
    then have "utf8_decode (take 6 input) \<noteq> js ''bplist''"
      using header_rejected[of "take 6 input"] by auto
    then show "parseBuffer engine depth input = Some (Inl (Error InvalidBinaryPlist))"
      by (simp only: parseBuffer_def Let_def sub) simp
  }
  {
    assume a: "take 6 input = asciiBytes ''bplist'' \<and> length input < 26"
    then have "utf8_decode (take 6 input) = js ''bplist''"
      using header_accepted[of input] by (simp only: sub)
    with a show "parseBuffer engine depth input = Some (Inl RangeError)"
      by (simp only: parseBuffer_def Let_def sub) (simp add: getUint8_def viewBytes_def)
  }
qed

theorem parseBuffer_header_witness:
  "take 6 (asciiBytes ''bplis'') \<noteq> asciiBytes ''bplist''
   \<and> parseBuffer (\<lambda>k. False) 0 (asciiBytes ''bplis'') = Some (Inl (Error InvalidBinaryPlist))
   \<and> take 6 (asciiBytes ''bplist00'') = asciiBytes ''bplist''
   \<and> length (asciiBytes ''bplist00'') < 26
   \<and> parseBuffer (\<lambda>k. False) 0 (asciiBytes ''bplist00'') = Some (Inl RangeError)"
proof -
  have h1: "take 6 (asciiBytes ''bplis'') \<noteq> asciiBytes ''bplist''"
    by (simp add: asciiBytes_def)
  have h2: "take 6 (asciiBytes ''bplist00'') = asciiBytes ''bplist'' \<and> length (asciiBytes ''bplist00'') < 26"
    by (simp add: asciiBytes_def)
  from parseBuffer_header[of "asciiBytes ''bplis''" "\<lambda>k. False" 0] h1
  have "parseBuffer (\<lambda>k. False) 0 (asciiBytes ''bplis'') = Some (Inl (Error InvalidBinaryPlist))"
    by blast
  moreover from parseBuffer_header[of "asciiBytes ''bplist00''" "\<lambda>k. False" 0] h2
  have "parseBuffer (\<lambda>k. False) 0 (asciiBytes ''bplist00'') = Some (Inl RangeError)"
    by blast
  ultimately show ?thesis
    using h1 h2 by blast
qed

text \<open>
  The claim as stated fails in both of its parts about short inputs. The 30-byte input
  \<open>short_plist_30\<close> is decoded without any error: the trailer read at offset \<open>-2\<close> takes
  \<^verbatim>\<open>numObjects = 0\<close> and \<^verbatim>\<open>topObject = 0\<close> from the zero bytes, the offset table is empty, and
  the missing object 0 decodes to \<^verbatim>\<open>null\<close>. The 8-byte input \<^verbatim>\<open>bplist00\<close> fails with a
  \<^verbatim>\<open>RangeError\<close>, not with an error of the parser.
\<close>

theorem parseBuffer_short_input_counterexample:
  "length short_plist_30 = 30
   \<and> parseBuffer (\<lambda>k. False) (Suc 0) short_plist_30 = Some (Inr Null)
   \<and> length (asciiBytes ''bplist00'') = 8
   \<and> parseBuffer (\<lambda>k. False) (Suc 0) (asciiBytes ''bplist00'') = Some (Inl RangeError)"
  by (simp add: eval_defs short_plist_30_def)

section \<open>Arrays\<close>

lemma parseArray_loop_done:
  "\<not> i < len \<Longrightarrow> parseArray_loop parse ctx offset start len i acc = Some (Inr acc)"
  by (subst parseArray_loop.simps) simp

lemma parseArray_loop_step:
  "i < len \<Longrightarrow>
   parseArray_loop parse ctx offset start len i acc =
     (case objRefAt ctx (offset + start) i of
        Inl e \<Rightarrow> Some (Inl e)
      | Inr objRef \<Rightarrow>
          (case parse objRef of
             None \<Rightarrow> None
           | Some (Inl e) \<Rightarrow> Some (Inl e)
           | Some (Inr v) \<Rightarrow> parseArray_loop parse ctx offset start len (i + 1) (acc @ [v])))"
  by (subst parseArray_loop.simps) simp

lemma parseArray_loop_elements:
  "parseArray_loop parse ctx offset start len i acc = Some (Inr elems) \<Longrightarrow>
   \<exists>rest. elems = acc @ rest \<and> length rest = len - i
      \<and> (\<forall>j < len - i. \<exists>r. objRefAt ctx (offset + start) (i + j) = Inr r
                             \<and> parse r = Some (Inr (rest ! j)))"
proof (induction parse ctx offset start len i acc rule: parseArray_loop.induct)
  case (1 parse ctx offset start len i acc)
  show ?case
  proof (cases "i < len")
    case False
    with "1.prems" show ?thesis
      by (simp add: parseArray_loop_done)
  next
    case True
    from "1.prems" obtain r v where
      r: "objRefAt ctx (offset + start) i = Inr r" and v: "parse r = Some (Inr v)"
      and continue: "parseArray_loop parse ctx offset start len (i + 1) (acc @ [v]) = Some (Inr elems)"
      unfolding parseArray_loop_step[OF True]
      by (auto split: sum.splits option.splits)
    from "1.IH"[OF True r v refl continue] obtain rest where
      rest: "elems = (acc @ [v]) @ rest" "length rest = len - (i + 1)"
      and elems: "\<forall>j < len - (i + 1). \<exists>r. objRefAt ctx (offset + start) (i + 1 + j) = Inr r
                      \<and> parse r = Some (Inr (rest ! j))"
      by blast
    have "\<exists>r. objRefAt ctx (offset + start) (i + j) = Inr r \<and> parse r = Some (Inr ((v # rest) ! j))"
      if "j < len - i" for j
    proof (cases j)
      case 0
      with r v show ?thesis by simp
    next
      case (Suc k)
      with that have "k < len - (i + 1)" by simp
      with elems Suc show ?thesis by simp
    qed
    with rest True show ?thesis
      by (intro exI[of _ "v # rest"]) simp
  qed
qed

lemma parseArray_loop_complete:
  "length rest = len - i \<Longrightarrow>
   \<forall>j < len - i. \<exists>r. objRefAt ctx (offset + start) (i + j) = Inr r
                    \<and> parse r = Some (Inr (rest ! j)) \<Longrightarrow>
   parseArray_loop parse ctx offset start len i acc = Some (Inr (acc @ rest))"
proof (induction parse ctx offset start len i acc arbitrary: rest rule: parseArray_loop.induct)
  case (1 parse ctx offset start len i acc)
  show ?case
  proof (cases "i < len")
    case False
    with "1.prems" show ?thesis
      by (simp add: parseArray_loop_done)
  next
    case True
    with "1.prems"(1) obtain v rest' where rest: "rest = v # rest'"
      by (cases rest) simp_all
    from "1.prems"(2) True obtain r where
      r: "objRefAt ctx (offset + start) i = Inr r" and v: "parse r = Some (Inr v)"
      using rest by (metis add.right_neutral nth_Cons_0 zero_less_diff)
    have "parseArray_loop parse ctx offset start len (i + 1) (acc @ [v]) = Some (Inr ((acc @ [v]) @ rest'))"
    proof (rule "1.IH"[OF True r v refl])
      show "length rest' = len - (i + 1)"
        using "1.prems"(1) rest by simp
      show "\<forall>j < len - (i + 1). \<exists>r. objRefAt ctx (offset + start) (i + 1 + j) = Inr r
                      \<and> parse r = Some (Inr (rest' ! j))"
      proof (intro allI impI)
        fix j assume "j < len - (i + 1)"
        then have "Suc j < len - i" by simp
        with "1.prems"(2) rest show "\<exists>r. objRefAt ctx (offset + start) (i + 1 + j) = Inr r
                      \<and> parse r = Some (Inr (rest' ! j))"
          by (metis add_Suc_right add_Suc_shift Suc_eq_plus1 nth_Cons_Suc)
      qed
    qed
    with r v True rest show ?thesis
      by (simp add: parseArray_loop_step)
  qed
qed

lemma lengthAndOffset_inline:
  "objInfo \<noteq> 0xF \<Longrightarrow> lengthAndOffset bs offset objInfo = Inr (objInfo, 1)"
  by (simp add: lengthAndOffset_def)

lemma lengthAndOffset_extended:
  "lengthAndOffset bs offset 0xF =
     (case readUInt (subarray bs (offset + 2)
                      (offset + 2 + 2 ^ (toInt32 (element bs (offset + 1)) AND 0x0F))) of
        Inl e \<Rightarrow> Inl e
      | Inr n \<Rightarrow> Inr (n, 1 + 1 + 2 ^ (toInt32 (element bs (offset + 1)) AND 0x0F)))"
  by (simp add: lengthAndOffset_def Let_def split: sum.split)

lemma parseArray_success:
  "parseArray parse ctx offset objInfo = Some (Inr v) \<longleftrightarrow>
     (\<exists>len start elems.
        lengthAndOffset (buffer ctx) offset objInfo = Inr (len, start)
        \<and> len * objectRefSize ctx \<le> maxObjectSize
        \<and> v = Array elems \<and> length elems = len
        \<and> (\<forall>i < len. \<exists>r. objRefAt ctx (offset + start) i = Inr r
                         \<and> parse r = Some (Inr (elems ! i))))" (is "?L \<longleftrightarrow> ?R")
proof
  assume ?L
  then obtain len start elems where
    lo: "lengthAndOffset (buffer ctx) offset objInfo = Inr (len, start)"
    and size: "len * objectRefSize ctx \<le> maxObjectSize"
    and loop: "parseArray_loop parse ctx offset start len 0 [] = Some (Inr elems)"
    and v: "v = Array elems"
    unfolding parseArray_def
    by (auto split: sum.splits option.splits if_splits prod.splits)
  from parseArray_loop_elements[OF loop] lo size v show ?R
    by auto
next
  assume ?R
  then obtain len start elems where
    lo: "lengthAndOffset (buffer ctx) offset objInfo = Inr (len, start)"
    and size: "len * objectRefSize ctx \<le> maxObjectSize"
    and v: "v = Array elems" and n: "length elems = len"
    and elems: "\<forall>i < len. \<exists>r. objRefAt ctx (offset + start) i = Inr r
                          \<and> parse r = Some (Inr (elems ! i))"
    by blast
  have "parseArray_loop parse ctx offset start len 0 [] = Some (Inr ([] @ elems))"
    using n elems by (intro parseArray_loop_complete) simp_all
  with lo size v show ?L
    by (simp add: parseArray_def)
qed

lemma parseObject_dispatch_array:
  assumes "tableEntry (offsetTable ctx) tableOffset = Some offset"
      and "element (buffer ctx) offset = Some type"
      and "drop_bit 4 (type AND 0xF0) = 0xA"
  shows "parseObject (Suc depth) ctx tableOffset
           = parseArray (parseObject depth ctx) ctx offset (type AND 0x0F)"
  using assms by (simp add: toInt32_def Let_def)

lemma bigEndian_two_bytes: "length bs \<le> 2 \<Longrightarrow> bigEndian bs < 65536"
proof -
  assume l: "length bs \<le> 2"
  have b: "unat x < 256" for x :: byte
    using unsigned_less[of x, where 'a = nat] by simp
  show ?thesis
  proof (cases bs)
    case Nil
    then show ?thesis by (simp add: bigEndian_def)
  next
    case (Cons x xs)
    show ?thesis
    proof (cases xs)
      case Nil
      with Cons b[of x] show ?thesis by (simp add: bigEndian_def)
    next
      case (Cons y ys)
      with l \<open>bs = x # xs\<close> have "ys = []" by simp
      with Cons \<open>bs = x # xs\<close> b[of x] b[of y] show ?thesis by (simp add: bigEndian_def)
    qed
  qed
qed

lemma product_bound:
  "(a::nat) \<le> 65535 \<Longrightarrow> w < 256 \<Longrightarrow> a * w \<le> 16711425 \<and> a * 2 * w \<le> 33422850"
proof -
  assume a: "a \<le> 65535" and w: "w < 256"
  then have "w \<le> 255" by simp
  with a have "a * w \<le> 65535 * 255" by (rule mult_le_mono)
  then show ?thesis by simp
qed

lemma objRefAt_slice:
  "objRefAt ctx p i = readUInt (take (objectRefSize ctx) (drop (p + i * objectRefSize ctx) (buffer ctx)))"
  by (simp add: objRefAt_def subarray_take_drop)

lemma objRefAt_bytes:
  assumes "objectRefSize ctx = 1 \<or> objectRefSize ctx = 2"
      and "p + (i + 1) * objectRefSize ctx \<le> length (buffer ctx)"
  shows "objRefAt ctx p i
           = Inr (readUnsignedBigEndian
                    (take (objectRefSize ctx) (drop (p + i * objectRefSize ctx) (buffer ctx))))"
proof -
  let ?slice = "take (objectRefSize ctx) (drop (p + i * objectRefSize ctx) (buffer ctx))"
  from assms(2) have "length ?slice = objectRefSize ctx" by simp
  with assms(1) have "length ?slice = 1 \<or> length ?slice = 2" by simp
  then show ?thesis
    by (simp only: objRefAt_slice readUInt_cases bigEndian_positional if_True)
qed

lemma lengthAndOffset_bytes:
  "lengthAndOffset bs offset objInfo =
     (if objInfo = 0xF then
        (let count = take (2 ^ (toInt32 (element bs (offset + 1)) AND 0x0F)) (drop (offset + 2) bs) in
         if length count = 1 \<or> length count = 2
         then Inr (readUnsignedBigEndian count, 1 + 1 + 2 ^ (toInt32 (element bs (offset + 1)) AND 0x0F))
         else Inl (Error (UnexpectedUintLength (length count))))
      else Inr (objInfo, 1))"
  by (simp add: lengthAndOffset_def Let_def subarray_take_drop readUInt_cases bigEndian_positional
        del: length_take)


lemma lengthAndOffset_readable:
  assumes "count = (if objInfo = 0xF
                    then take (2 ^ (toInt32 (element bs (offset + 1)) AND 0x0F)) (drop (offset + 2) bs)
                    else [])"
      and "len = (if objInfo = 0xF then readUnsignedBigEndian count else objInfo)"
      and "start = (if objInfo = 0xF then 1 + 1 + 2 ^ (toInt32 (element bs (offset + 1)) AND 0x0F) else 1)"
      and "objInfo \<noteq> 0xF \<or> length count = 1 \<or> length count = 2"
      and "objInfo < 16"
  shows "lengthAndOffset bs offset objInfo = Inr (len, start)" and "len \<le> 65535"
proof -
  show "lengthAndOffset bs offset objInfo = Inr (len, start)"
  proof (cases "objInfo = 0xF")
    case True
    let ?e = "toInt32 (element bs (offset + 1)) AND 0x0F"
    from True assms(1) have c: "take (2 ^ ?e) (drop (offset + 2) bs) = count" by simp
    from True assms(2,3) have ls: "len = readUnsignedBigEndian count" "start = 1 + 1 + 2 ^ ?e"
      by simp_all
    from assms(4) True have l: "length count = 1 \<or> length count = 2" by simp
    have "lengthAndOffset bs offset 0xF = Inr (readUnsignedBigEndian count, 1 + 1 + 2 ^ ?e)"
      unfolding lengthAndOffset_bytes Let_def c using l by simp
    with True ls show ?thesis by simp
  next
    case False
    with assms(2,3) show ?thesis
      by (simp add: lengthAndOffset_bytes)
  qed
  show "len \<le> 65535"
  proof (cases "objInfo = 0xF")
    case True
    with assms(4) have "length count \<le> 2" by auto
    from bigEndian_two_bytes[OF this] True assms(2) show ?thesis
      by (simp add: bigEndian_positional)
  next
    case False
    with assms(2,5) show ?thesis by simp
  qed
qed

lemma parseObject_array_bytes:
  assumes "tableEntry (offsetTable ctx) tableOffset = Some offset"
      and "element (buffer ctx) offset = Some type"
      and "drop_bit 4 (type AND 0xF0) = 0xA"
      and "lengthAndOffset (buffer ctx) offset (type AND 0x0F) = Inr (len, start)"
      and "len \<le> 65535"
      and "objectRefSize ctx = 1 \<or> objectRefSize ctx = 2"
      and "offset + start + len * objectRefSize ctx \<le> length (buffer ctx)"
  shows "parseObject (Suc depth) ctx tableOffset = Some (Inr v) \<longleftrightarrow>
           (\<exists>elems. v = Array elems \<and> length elems = len
              \<and> (\<forall>i < len. parseObject depth ctx
                     (readUnsignedBigEndian
                        (take (objectRefSize ctx)
                           (drop (offset + start + i * objectRefSize ctx) (buffer ctx))))
                   = Some (Inr (elems ! i))))"
proof -
  let ?w = "objectRefSize ctx"
  let ?ref = "\<lambda>i. readUnsignedBigEndian (take ?w (drop (offset + start + i * ?w) (buffer ctx)))"
  from assms(6) have "?w < 256" by auto
  from product_bound[OF assms(5) this] have size: "len * ?w \<le> maxObjectSize"
    by (simp add: maxObjectSize_def)
  have ref: "objRefAt ctx (offset + start) i = Inr (?ref i)" if "i < len" for i
  proof (rule objRefAt_bytes[OF assms(6)])
    from that have "(i + 1) * ?w \<le> len * ?w" by (intro mult_le_mono1) simp
    with assms(7) show "offset + start + (i + 1) * ?w \<le> length (buffer ctx)" by simp
  qed
  have "parseObject (Suc depth) ctx tableOffset = Some (Inr v) \<longleftrightarrow>
          (\<exists>elems. v = Array elems \<and> length elems = len
              \<and> (\<forall>i < len. \<exists>r. objRefAt ctx (offset + start) i = Inr r
                              \<and> parseObject depth ctx r = Some (Inr (elems ! i))))"
    unfolding parseObject_dispatch_array[OF assms(1-3)] parseArray_success
    using assms(4) size by auto
  also have "\<dots> \<longleftrightarrow> (\<exists>elems. v = Array elems \<and> length elems = len
              \<and> (\<forall>i < len. parseObject depth ctx (?ref i) = Some (Inr (elems ! i))))"
    using ref by auto
  finally show ?thesis .
qed

lemma parseObject_array_reference_width:
  assumes "tableEntry (offsetTable ctx) tableOffset = Some offset"
      and "element (buffer ctx) offset = Some type"
      and "drop_bit 4 (type AND 0xF0) = 0xA"
      and "lengthAndOffset (buffer ctx) offset (type AND 0x0F) = Inr (len, start)"
      and "len \<le> 65535" and "0 < len"
      and "objectRefSize ctx < 256"
      and "first = take (objectRefSize ctx) (drop (offset + start) (buffer ctx))"
      and "length first \<noteq> 1" and "length first \<noteq> 2"
  shows "parseObject (Suc depth) ctx tableOffset
           = Some (Inl (Error (UnexpectedUintLength (length first))))"
proof -
  from product_bound[OF assms(5,7)] have size: "\<not> len * objectRefSize ctx > maxObjectSize"
    by (simp add: maxObjectSize_def)
  from assms(8-10) have "objRefAt ctx (offset + start) 0
      = Inl (Error (UnexpectedUintLength (length first)))"
    by (simp add: objRefAt_slice readUInt_cases del: length_take)
  then have "parseArray_loop (parseObject depth ctx) ctx offset start len 0 []
      = Some (Inl (Error (UnexpectedUintLength (length first))))"
    by (simp add: parseArray_loop_step[OF assms(6)])
  with assms(4) size show ?thesis
    unfolding parseObject_dispatch_array[OF assms(1-3)]
    by (simp add: parseArray_def)
qed

lemma parseObject_array_count_width:
  assumes "tableEntry (offsetTable ctx) tableOffset = Some offset"
      and "element (buffer ctx) offset = Some type"
      and "drop_bit 4 (type AND 0xF0) = 0xA"
      and "type AND 0x0F = 0xF"
      and "count = take (2 ^ (toInt32 (element (buffer ctx) (offset + 1)) AND 0x0F))
                     (drop (offset + 2) (buffer ctx))"
      and "length count \<noteq> 1" and "length count \<noteq> 2"
  shows "parseObject (Suc depth) ctx tableOffset
           = Some (Inl (Error (UnexpectedUintLength (length count))))"
proof -
  from assms(4-7) have "lengthAndOffset (buffer ctx) offset (type AND 0x0F)
      = Inl (Error (UnexpectedUintLength (length count)))"
    by (simp add: lengthAndOffset_bytes Let_def del: length_take)
  then show ?thesis
    unfolding parseObject_dispatch_array[OF assms(1-3)]
    by (simp add: parseArray_def)
qed

lemma parseObject_array_cycle:
  assumes "tableEntry (offsetTable ctx) tableOffset = Some offset"
      and "element (buffer ctx) offset = Some type"
      and "drop_bit 4 (type AND 0xF0) = 0xA"
      and "lengthAndOffset (buffer ctx) offset (type AND 0x0F) = Inr (len, start)"
      and "len \<le> 65535"
      and "objectRefSize ctx = 1 \<or> objectRefSize ctx = 2"
      and "offset + start + len * objectRefSize ctx \<le> length (buffer ctx)"
      and "i < len"
      and "readUnsignedBigEndian
             (take (objectRefSize ctx) (drop (offset + start + i * objectRefSize ctx) (buffer ctx)))
           = tableOffset"
  shows "parseObject depth ctx tableOffset \<noteq> Some (Inr v)"
proof (induction depth arbitrary: v)
  case 0
  show ?case by simp
next
  case (Suc depth)
  show ?case
  proof
    assume "parseObject (Suc depth) ctx tableOffset = Some (Inr v)"
    with parseObject_array_bytes[OF assms(1-7), of depth v] assms(8,9)
    obtain elems where "parseObject depth ctx tableOffset = Some (Inr (elems ! i))"
      by auto
    with Suc.IH show False by blast
  qed
qed


text \<open>
  Claim C7, as amended. For an object whose type byte has the high nibble \<^verbatim>\<open>0xA\<close>: a low
  nibble other than \<^verbatim>\<open>0xF\<close> is the element count itself (so at most 14) and the references
  start one byte after the type byte; with the low nibble \<^verbatim>\<open>0xF\<close> the count is the integer
  of \<^verbatim>\<open>2 ^ e\<close> bytes that follows the marker byte, \<^verbatim>\<open>e\<close> being the marker's low nibble, and
  the references start \<^verbatim>\<open>1 + 1 + 2 ^ e\<close> bytes after the type byte. When that integer has
  one or two bytes, the references are one or two bytes wide and all of them lie in the
  input, \<^verbatim>\<open>parseObject\<close> returns a value exactly when every referenced object decodes, and
  the value is the array of exactly that many elements, the \<open>i\<close>-th of them the decoding of
  the object that the \<open>i\<close>-th reference names, its bytes read most significant first; an
  array that refers to itself has no value at any depth. A count written in any other
  number of bytes ends \<^verbatim>\<open>parseObject\<close> with \<^verbatim>\<open>Unexpected Uint value length\<close>, and so does a
  first reference of any other width in an array that is not empty.
\<close>

theorem parseObject_array_forms:
  assumes "tableEntry (offsetTable ctx) tableOffset = Some offset"
      and "element (buffer ctx) offset = Some type"
      and "drop_bit 4 (type AND 0xF0) = 0xA"
      and "count = (if type AND 0x0F = 0xF
                    then take (2 ^ (toInt32 (element (buffer ctx) (offset + 1)) AND 0x0F))
                           (drop (offset + 2) (buffer ctx))
                    else [])"
      and "len = (if type AND 0x0F = 0xF then readUnsignedBigEndian count else type AND 0x0F)"
      and "start = (if type AND 0x0F = 0xF
                    then 1 + 1 + 2 ^ (toInt32 (element (buffer ctx) (offset + 1)) AND 0x0F)
                    else 1)"
      and "first = take (objectRefSize ctx) (drop (offset + start) (buffer ctx))"
      and "objectRefSize ctx < 256"
  shows "(type AND 0x0F \<noteq> 0xF \<longrightarrow> len \<le> 14 \<and> start = 1)
   \<and> ((type AND 0x0F \<noteq> 0xF \<or> length count = 1 \<or> length count = 2)
        \<and> (objectRefSize ctx = 1 \<or> objectRefSize ctx = 2)
        \<and> offset + start + len * objectRefSize ctx \<le> length (buffer ctx)
       \<longrightarrow> (parseObject (Suc depth) ctx tableOffset = Some (Inr v) \<longleftrightarrow>
              (\<exists>elems. v = Array elems \<and> length elems = len
                 \<and> (\<forall>i < len. parseObject depth ctx
                        (readUnsignedBigEndian
                           (take (objectRefSize ctx)
                              (drop (offset + start + i * objectRefSize ctx) (buffer ctx))))
                      = Some (Inr (elems ! i)))))
           \<and> (\<forall>i < len. readUnsignedBigEndian
                            (take (objectRefSize ctx)
                               (drop (offset + start + i * objectRefSize ctx) (buffer ctx)))
                          = tableOffset
                  \<longrightarrow> parseObject (Suc depth) ctx tableOffset \<noteq> Some (Inr v)))
   \<and> (type AND 0x0F = 0xF \<and> length count \<noteq> 1 \<and> length count \<noteq> 2
       \<longrightarrow> parseObject (Suc depth) ctx tableOffset
             = Some (Inl (Error (UnexpectedUintLength (length count)))))
   \<and> ((type AND 0x0F \<noteq> 0xF \<or> length count = 1 \<or> length count = 2)
        \<and> 0 < len \<and> length first \<noteq> 1 \<and> length first \<noteq> 2
       \<longrightarrow> parseObject (Suc depth) ctx tableOffset
             = Some (Inl (Error (UnexpectedUintLength (length first)))))"
proof (intro conjI impI)
  have info: "type AND 0x0F < 16"
    by (simp add: and_F)
  {
    assume "type AND 0x0F \<noteq> 0xF"
    with info assms(5,6) show "len \<le> 14" and "start = 1" by simp_all
  }
  {
    assume a: "(type AND 0x0F \<noteq> 0xF \<or> length count = 1 \<or> length count = 2)
        \<and> (objectRefSize ctx = 1 \<or> objectRefSize ctx = 2)
        \<and> offset + start + len * objectRefSize ctx \<le> length (buffer ctx)"
    then have r: "type AND 0x0F \<noteq> 0xF \<or> length count = 1 \<or> length count = 2"
      and w: "objectRefSize ctx = 1 \<or> objectRefSize ctx = 2"
      and fits: "offset + start + len * objectRefSize ctx \<le> length (buffer ctx)"
      by simp_all
    note lo = lengthAndOffset_readable[OF assms(4) assms(5) assms(6) r info]
    show "parseObject (Suc depth) ctx tableOffset = Some (Inr v) \<longleftrightarrow>
              (\<exists>elems. v = Array elems \<and> length elems = len
                 \<and> (\<forall>i < len. parseObject depth ctx
                        (readUnsignedBigEndian
                           (take (objectRefSize ctx)
                              (drop (offset + start + i * objectRefSize ctx) (buffer ctx))))
                      = Some (Inr (elems ! i))))"
      by (rule parseObject_array_bytes[OF assms(1-3) lo w fits])
    show "\<forall>i < len. readUnsignedBigEndian
                            (take (objectRefSize ctx)
                               (drop (offset + start + i * objectRefSize ctx) (buffer ctx)))
                          = tableOffset
                  \<longrightarrow> parseObject (Suc depth) ctx tableOffset \<noteq> Some (Inr v)"
      using parseObject_array_cycle[OF assms(1-3) lo w fits] by blast
  }
  {
    assume "type AND 0x0F = 0xF \<and> length count \<noteq> 1 \<and> length count \<noteq> 2"
    with assms(4) show "parseObject (Suc depth) ctx tableOffset
             = Some (Inl (Error (UnexpectedUintLength (length count))))"
      by (intro parseObject_array_count_width[OF assms(1-3)]) simp_all
  }
  {
    assume a: "(type AND 0x0F \<noteq> 0xF \<or> length count = 1 \<or> length count = 2)
        \<and> 0 < len \<and> length first \<noteq> 1 \<and> length first \<noteq> 2"
    then have r: "type AND 0x0F \<noteq> 0xF \<or> length count = 1 \<or> length count = 2" by simp
    note lo = lengthAndOffset_readable[OF assms(4) assms(5) assms(6) r info]
    from a show "parseObject (Suc depth) ctx tableOffset
             = Some (Inl (Error (UnexpectedUintLength (length first))))"
      by (intro parseObject_array_reference_width[OF assms(1-3) lo _ assms(8) assms(7)]) simp_all
  }
qed


theorem parseObject_array_forms_witness:
  "tableEntry offsets_array_20_wide 0 = Some 8
   \<and> element plist_array_20_wide 8 = Some 0xAF
   \<and> drop_bit 4 ((0xAF :: nat) AND 0xF0) = 0xA
   \<and> take (2 ^ 1) (drop (8 + 2) plist_array_20_wide) = [0x00, 0x14]
   \<and> readUnsignedBigEndian [0x00, 0x14] = 20
   \<and> 8 + (1 + 1 + 2 ^ 1) + 20 * 2 \<le> length plist_array_20_wide
   \<and> parseObject (Suc (Suc 0))
         \<lparr>buffer = plist_array_20_wide, offsetTable = offsets_array_20_wide, objectRefSize = 2,
          canonical = (\<lambda>k. False)\<rparr> 0 = Some (Inr (Array integers_100_to_119))
   \<and> parseBuffer (\<lambda>k. False) (Suc (Suc 0)) plist_array_20_wide
       = Some (Inr (Array integers_100_to_119))
   \<and> tableEntry offsets_array_20 0 = Some 8
   \<and> element plist_array_20 8 = Some 0xAF
   \<and> take (2 ^ 0) (drop (8 + 2) plist_array_20) = [0x14]
   \<and> readUnsignedBigEndian [0x14] = 20
   \<and> 8 + (1 + 1 + 2 ^ 0) + 20 * 1 \<le> length plist_array_20
   \<and> parseObject (Suc (Suc 0))
         \<lparr>buffer = plist_array_20, offsetTable = offsets_array_20, objectRefSize = 1,
          canonical = (\<lambda>k. False)\<rparr> 0 = Some (Inr (Array integers_100_to_119))
   \<and> parseBuffer (\<lambda>k. False) (Suc (Suc 0)) plist_array_20 = Some (Inr (Array integers_100_to_119))
   \<and> length integers_100_to_119 = 20"
proof -
  have h3: "drop_bit 4 ((0xAF :: nat) AND 0xF0) = 0xA"
    by simp
  have nibble: "(0xAF :: nat) AND 0x0F = 0xF"
    by simp
  have n20: "length integers_100_to_119 = 20"
    by (simp add: integers_100_to_119_def)
  have wide: "tableEntry offsets_array_20_wide 0 = Some 8
     \<and> element plist_array_20_wide 8 = Some 0xAF
     \<and> take (2 ^ 1) (drop (8 + 2) plist_array_20_wide) = [0x00, 0x14]
     \<and> readUnsignedBigEndian [0x00, 0x14] = 20
     \<and> 8 + (1 + 1 + 2 ^ 1) + 20 * 2 \<le> length plist_array_20_wide
     \<and> parseObject (Suc (Suc 0))
         \<lparr>buffer = plist_array_20_wide, offsetTable = offsets_array_20_wide, objectRefSize = 2,
          canonical = (\<lambda>k. False)\<rparr> 0 = Some (Inr (Array integers_100_to_119))
     \<and> parseBuffer (\<lambda>k. False) (Suc (Suc 0)) plist_array_20_wide
         = Some (Inr (Array integers_100_to_119))"
  proof -
    let ?ctx = "\<lparr>buffer = plist_array_20_wide, offsetTable = offsets_array_20_wide,
                 objectRefSize = 2, canonical = (\<lambda>k. False)\<rparr>"
    have h1: "tableEntry (offsetTable ?ctx) 0 = Some 8"
      by (simp add: tableEntry_def offsets_array_20_wide_def)
    have h2: "element (buffer ?ctx) 8 = Some 0xAF"
      by (simp add: element_def plist_array_20_wide_def asciiBytes_def)
    have marker: "toInt32 (element (buffer ?ctx) (8 + 1)) AND 0x0F = 1"
      by (simp add: element_def toInt32_def plist_array_20_wide_def asciiBytes_def)
    have bytes: "take (2 ^ 1) (drop (8 + 2) (buffer ?ctx)) = [0x00, 0x14]"
      by (simp add: plist_array_20_wide_def asciiBytes_def)
    have magnitude: "readUnsignedBigEndian [0x00, 0x14] = 20"
      by (simp add: bigEndian_positional[symmetric] bigEndian_def)
    have fits: "8 + (1 + 1 + 2 ^ 1) + 20 * objectRefSize ?ctx \<le> length (buffer ?ctx)"
      by (simp add: plist_array_20_wide_def asciiBytes_def)
    have h4: "[0x00, 0x14] = (if (0xAF :: nat) AND 0x0F = 0xF
                    then take (2 ^ (toInt32 (element (buffer ?ctx) (8 + 1)) AND 0x0F))
                           (drop (8 + 2) (buffer ?ctx))
                    else [])"
      by (simp only: nibble marker bytes if_True simp_thms)
    have h5: "20 = (if (0xAF :: nat) AND 0x0F = 0xF then readUnsignedBigEndian [0x00, 0x14]
                    else 0xAF AND 0x0F)"
      by (simp only: nibble magnitude if_True simp_thms)
    have h6: "1 + 1 + 2 ^ 1 = (if (0xAF :: nat) AND 0x0F = 0xF
                    then 1 + 1 + 2 ^ (toInt32 (element (buffer ?ctx) (8 + 1)) AND 0x0F)
                    else 1)"
      by (simp only: nibble marker if_True simp_thms)
    have h8: "objectRefSize ?ctx < 256"
      by simp
    have elems: "\<forall>i \<in> set [0..<20].
        parseObject (Suc 0) ?ctx
          (readUnsignedBigEndian
             (take (objectRefSize ?ctx) (drop (8 + (1 + 1 + 2 ^ 1) + i * objectRefSize ?ctx) (buffer ?ctx))))
        = Some (Inr (integers_100_to_119 ! i))"
      by (simp add: upt_conv_Cons bigEndian_positional[symmetric] eval_defs plist_array_20_wide_def
            offsets_array_20_wide_def integers_100_to_119_def parseInteger_def reduceShiftOr_def)
    have "\<exists>elems. Array integers_100_to_119 = Array elems \<and> length elems = 20
           \<and> (\<forall>i < 20. parseObject (Suc 0) ?ctx
                  (readUnsignedBigEndian
                     (take (objectRefSize ?ctx)
                        (drop (8 + (1 + 1 + 2 ^ 1) + i * objectRefSize ?ctx) (buffer ?ctx))))
                = Some (Inr (elems ! i)))"
      using elems n20 by (intro exI[of _ integers_100_to_119]) simp
    with parseObject_array_forms[OF h1 h2 h3 h4 h5 h6 refl h8, where depth = "Suc 0"
           and v = "Array integers_100_to_119"] fits
    have top: "parseObject (Suc (Suc 0)) ?ctx 0 = Some (Inr (Array integers_100_to_119))"
      by simp
    have "parseBuffer (\<lambda>k. False) (Suc (Suc 0)) plist_array_20_wide = parseObject (Suc (Suc 0)) ?ctx 0"
      by (simp add: eval_defs plist_array_20_wide_def offsets_array_20_wide_def del: parseObject.simps)
    with top h1 h2 bytes magnitude fits show ?thesis
      by simp
  qed
  have narrow: "tableEntry offsets_array_20 0 = Some 8
     \<and> element plist_array_20 8 = Some 0xAF
     \<and> take (2 ^ 0) (drop (8 + 2) plist_array_20) = [0x14]
     \<and> readUnsignedBigEndian [0x14] = 20
     \<and> 8 + (1 + 1 + 2 ^ 0) + 20 * 1 \<le> length plist_array_20
     \<and> parseObject (Suc (Suc 0))
         \<lparr>buffer = plist_array_20, offsetTable = offsets_array_20, objectRefSize = 1,
          canonical = (\<lambda>k. False)\<rparr> 0 = Some (Inr (Array integers_100_to_119))
     \<and> parseBuffer (\<lambda>k. False) (Suc (Suc 0)) plist_array_20
         = Some (Inr (Array integers_100_to_119))"
  proof -
    let ?ctx = "\<lparr>buffer = plist_array_20, offsetTable = offsets_array_20,
                 objectRefSize = 1, canonical = (\<lambda>k. False)\<rparr>"
    have h1: "tableEntry (offsetTable ?ctx) 0 = Some 8"
      by (simp add: tableEntry_def offsets_array_20_def)
    have h2: "element (buffer ?ctx) 8 = Some 0xAF"
      by (simp add: element_def plist_array_20_def asciiBytes_def)
    have marker: "toInt32 (element (buffer ?ctx) (8 + 1)) AND 0x0F = 0"
      by (simp add: element_def toInt32_def plist_array_20_def asciiBytes_def)
    have bytes: "take (2 ^ 0) (drop (8 + 2) (buffer ?ctx)) = [0x14]"
      by (simp add: plist_array_20_def asciiBytes_def)
    have magnitude: "readUnsignedBigEndian [0x14] = 20"
      by (simp add: bigEndian_positional[symmetric] bigEndian_def)
    have fits: "8 + (1 + 1 + 2 ^ 0) + 20 * objectRefSize ?ctx \<le> length (buffer ?ctx)"
      by (simp add: plist_array_20_def asciiBytes_def)
    have h4: "[0x14] = (if (0xAF :: nat) AND 0x0F = 0xF
                    then take (2 ^ (toInt32 (element (buffer ?ctx) (8 + 1)) AND 0x0F))
                           (drop (8 + 2) (buffer ?ctx))
                    else [])"
      by (simp only: nibble marker bytes if_True simp_thms)
    have h5: "20 = (if (0xAF :: nat) AND 0x0F = 0xF then readUnsignedBigEndian [0x14]
                    else 0xAF AND 0x0F)"
      by (simp only: nibble magnitude if_True simp_thms)
    have h6: "1 + 1 + 2 ^ 0 = (if (0xAF :: nat) AND 0x0F = 0xF
                    then 1 + 1 + 2 ^ (toInt32 (element (buffer ?ctx) (8 + 1)) AND 0x0F)
                    else 1)"
      by (simp only: nibble marker if_True simp_thms)
    have h8: "objectRefSize ?ctx < 256"
      by simp
    have elems: "\<forall>i \<in> set [0..<20].
        parseObject (Suc 0) ?ctx
          (readUnsignedBigEndian
             (take (objectRefSize ?ctx) (drop (8 + (1 + 1 + 2 ^ 0) + i * objectRefSize ?ctx) (buffer ?ctx))))
        = Some (Inr (integers_100_to_119 ! i))"
      by (simp add: upt_conv_Cons bigEndian_positional[symmetric] eval_defs plist_array_20_def
            offsets_array_20_def integers_100_to_119_def parseInteger_def reduceShiftOr_def)
    have "\<exists>elems. Array integers_100_to_119 = Array elems \<and> length elems = 20
           \<and> (\<forall>i < 20. parseObject (Suc 0) ?ctx
                  (readUnsignedBigEndian
                     (take (objectRefSize ?ctx)
                        (drop (8 + (1 + 1 + 2 ^ 0) + i * objectRefSize ?ctx) (buffer ?ctx))))
                = Some (Inr (elems ! i)))"
      using elems n20 by (intro exI[of _ integers_100_to_119]) simp
    with parseObject_array_forms[OF h1 h2 h3 h4 h5 h6 refl h8, where depth = "Suc 0"
           and v = "Array integers_100_to_119"] fits
    have top: "parseObject (Suc (Suc 0)) ?ctx 0 = Some (Inr (Array integers_100_to_119))"
      by simp
    have "parseBuffer (\<lambda>k. False) (Suc (Suc 0)) plist_array_20 = parseObject (Suc (Suc 0)) ?ctx 0"
      by (simp add: eval_defs plist_array_20_def offsets_array_20_def del: parseObject.simps)
    with top h1 h2 bytes magnitude fits show ?thesis
      by simp
  qed
  from h3 wide narrow n20 show ?thesis
    by (simp only: simp_thms)
qed

text \<open>
  The claim as stated fails for the array of the twenty integers whose count is written
  in four bytes, and for an array of two integers whose references are four bytes wide:
  \<^verbatim>\<open>readUInt\<close> throws on the count of the one and on the first reference of the other.
\<close>

theorem parseBuffer_array_width_counterexample:
  "readUnsignedBigEndian [0x00, 0x00, 0x00, 0x14] = 20
   \<and> take (2 ^ 2) (drop (8 + 2) plist_array_20_count_4_bytes) = [0x00, 0x00, 0x00, 0x14]
   \<and> parseBuffer (\<lambda>k. False) (Suc (Suc 0)) plist_array_20_count_4_bytes
       = Some (Inl (Error (UnexpectedUintLength 4)))
   \<and> parseBuffer (\<lambda>k. False) (Suc (Suc 0)) plist_array_2_references_4_bytes
       = Some (Inl (Error (UnexpectedUintLength 4)))"
proof -
  have magnitude: "readUnsignedBigEndian [0x00, 0x00, 0x00, 0x14] = 20"
    by (simp add: bigEndian_positional[symmetric] bigEndian_def)
  have bytes: "take (2 ^ 2) (drop (8 + 2) plist_array_20_count_4_bytes) = [0x00, 0x00, 0x00, 0x14]"
    by (simp add: plist_array_20_count_4_bytes_def asciiBytes_def)
  have count: "parseBuffer (\<lambda>k. False) (Suc (Suc 0)) plist_array_20_count_4_bytes
       = Some (Inl (Error (UnexpectedUintLength 4)))"
    by (simp add: eval_defs plist_array_20_count_4_bytes_def)
  have refs: "parseBuffer (\<lambda>k. False) (Suc (Suc 0)) plist_array_2_references_4_bytes
       = Some (Inl (Error (UnexpectedUintLength 4)))"
    by (simp add: eval_defs plist_array_2_references_4_bytes_def)
  from magnitude bytes count refs show ?thesis
    by (simp only: simp_thms)
qed

section \<open>Dictionaries\<close>

lemma typeof_string: "typeof v = ''string'' \<longleftrightarrow> (\<exists>s. v = String s)"
  by (cases v) simp_all

lemma parseDictionary_loop_done:
  "\<not> i < len \<Longrightarrow> parseDictionary_loop parse ctx offset start len i dict = Some (Inr dict)"
  by (subst parseDictionary_loop.simps) simp

lemma parseDictionary_loop_step:
  "i < len \<Longrightarrow>
   parseDictionary_loop parse ctx offset start len i dict =
     (case objRefAt ctx (offset + start) i of
        Inl e \<Rightarrow> Some (Inl e)
      | Inr keyRef \<Rightarrow>
          (case objRefAt ctx (offset + start + len * objectRefSize ctx) i of
             Inl e \<Rightarrow> Some (Inl e)
           | Inr valRef \<Rightarrow>
               (case parse keyRef of
                  None \<Rightarrow> None
                | Some (Inl e) \<Rightarrow> Some (Inl e)
                | Some (Inr key) \<Rightarrow>
                    (case key of
                       String k \<Rightarrow>
                         (case parse valRef of
                            None \<Rightarrow> None
                          | Some (Inl e) \<Rightarrow> Some (Inl e)
                          | Some (Inr val) \<Rightarrow>
                              (case assign (canonical ctx) dict k val of
                                 Inl e \<Rightarrow> Some (Inl e)
                               | Inr dict' \<Rightarrow>
                                   parseDictionary_loop parse ctx offset start len (i + 1) dict'))
                     | _ \<Rightarrow> Some (Inl (Error UnexpectedKeyType))))))"
  by (subst parseDictionary_loop.simps) simp

lemma parseDictionary_loop_key_type:
  assumes "i < len"
      and "objRefAt ctx (offset + start) i = Inr keyRef"
      and "objRefAt ctx (offset + start + len * objectRefSize ctx) i = Inr valRef"
      and "parse keyRef = Some (Inr key)"
      and "typeof key \<noteq> ''string''"
  shows "parseDictionary_loop parse ctx offset start len i dict = Some (Inl (Error UnexpectedKeyType))"
  using assms(2-5) unfolding parseDictionary_loop_step[OF assms(1)]
  by (cases key) simp_all

text \<open>What one successful turn of the loop has done.\<close>

lemma parseDictionary_loop_turn:
  assumes "i < len"
      and "parseDictionary_loop parse ctx offset start len i dict = Some (Inr result)"
  obtains keyRef valRef k val dict' where
    "objRefAt ctx (offset + start) i = Inr keyRef"
    "objRefAt ctx (offset + start + len * objectRefSize ctx) i = Inr valRef"
    "parse keyRef = Some (Inr (String k))"
    "parse valRef = Some (Inr val)"
    "assign (canonical ctx) dict k val = Inr dict'"
    "parseDictionary_loop parse ctx offset start len (i + 1) dict' = Some (Inr result)"
  using assms(2) unfolding parseDictionary_loop_step[OF assms(1)]
  by (auto split: sum.splits option.splits property.splits)

lemma parseDictionary_loop_keys:
  "parseDictionary_loop parse ctx offset start len i dict = Some (Inr result) \<Longrightarrow>
   \<forall>j. i \<le> j \<and> j < len \<longrightarrow>
     (\<exists>r k. objRefAt ctx (offset + start) j = Inr r \<and> parse r = Some (Inr (String k)))"
proof (induction parse ctx offset start len i dict rule: parseDictionary_loop.induct)
  case (1 parse ctx offset start len i dict)
  show ?case
  proof (cases "i < len")
    case False
    then show ?thesis by auto
  next
    case True
    from parseDictionary_loop_turn[OF True "1.prems"] obtain keyRef valRef k val dict' where
      turn: "objRefAt ctx (offset + start) i = Inr keyRef"
        "objRefAt ctx (offset + start + len * objectRefSize ctx) i = Inr valRef"
        "parse keyRef = Some (Inr (String k))"
        "parse valRef = Some (Inr val)"
        "assign (canonical ctx) dict k val = Inr dict'"
        "parseDictionary_loop parse ctx offset start len (i + 1) dict' = Some (Inr result)"
      by blast
    from "1.IH"[OF True turn(1) turn(2) turn(3) refl refl turn(4) refl turn(5) turn(6)]
    have later: "\<forall>j. i + 1 \<le> j \<and> j < len \<longrightarrow>
       (\<exists>r k. objRefAt ctx (offset + start) j = Inr r \<and> parse r = Some (Inr (String k)))" .
    show ?thesis
    proof (intro allI impI)
      fix j assume j: "i \<le> j \<and> j < len"
      show "\<exists>r k. objRefAt ctx (offset + start) j = Inr r \<and> parse r = Some (Inr (String k))"
      proof (cases "j = i")
        case True
        with turn(1,3) show ?thesis by blast
      next
        case False
        with j have "i + 1 \<le> j \<and> j < len" by simp
        with later show ?thesis by blast
      qed
    qed
  qed
qed


lemma parseObject_dispatch_dictionary:
  assumes "tableEntry (offsetTable ctx) tableOffset = Some offset"
      and "element (buffer ctx) offset = Some type"
      and "drop_bit 4 (type AND 0xF0) = 0xD"
  shows "parseObject (Suc depth) ctx tableOffset
           = parseDictionary (parseObject depth ctx) ctx offset (type AND 0x0F)"
  using assms by (simp add: toInt32_def Let_def)

lemma parseDictionary_success:
  assumes "parseDictionary parse ctx offset objInfo = Some (Inr v)"
  obtains len start own proto where
    "lengthAndOffset (buffer ctx) offset objInfo = Inr (len, start)"
    "len * 2 * objectRefSize ctx \<le> maxObjectSize"
    "parseDictionary_loop parse ctx offset start len 0 ([], ObjectPrototype) = Some (Inr (own, proto))"
    "v = Dictionary own proto"
  using assms unfolding parseDictionary_def
  by (auto split: sum.splits option.splits if_splits prod.splits)

text \<open>
  Claim C1. For an object whose type byte has the high nibble \<^verbatim>\<open>0xD\<close>: when \<^verbatim>\<open>parseObject\<close>
  returns a value, it is a dictionary and every one of its key references decoded to a
  string; so a key that decodes to anything else leaves no value, partial or not. The
  loop checks the pairs in table order and stops at the first failure: a first key that
  decodes to a non-string ends \<^verbatim>\<open>parseObject\<close> with \<^verbatim>\<open>Parsed unexpected property key type,
  should be a string.\<close>, and so does any later pair \<open>i\<close> that the loop reaches, whatever
  the dictionary built so far. (Both references of a pair are read before the key is
  decoded.)
\<close>

theorem parseObject_dictionary_keys:
  assumes "tableEntry (offsetTable ctx) tableOffset = Some offset"
      and "element (buffer ctx) offset = Some type"
      and "drop_bit 4 (type AND 0xF0) = 0xD"
  shows "(parseObject (Suc depth) ctx tableOffset = Some (Inr v) \<longrightarrow>
           (\<exists>len start own proto.
              lengthAndOffset (buffer ctx) offset (type AND 0x0F) = Inr (len, start)
              \<and> v = Dictionary own proto
              \<and> (\<forall>i < len. \<exists>r k. objRefAt ctx (offset + start) i = Inr r
                                 \<and> parseObject depth ctx r = Some (Inr (String k)))))
   \<and> (lengthAndOffset (buffer ctx) offset (type AND 0x0F) = Inr (len, start)
        \<and> len * 2 * objectRefSize ctx \<le> maxObjectSize \<and> 0 < len
        \<and> objRefAt ctx (offset + start) 0 = Inr keyRef
        \<and> objRefAt ctx (offset + start + len * objectRefSize ctx) 0 = Inr valRef
        \<and> parseObject depth ctx keyRef = Some (Inr key) \<and> typeof key \<noteq> ''string''
       \<longrightarrow> parseObject (Suc depth) ctx tableOffset = Some (Inl (Error UnexpectedKeyType)))
   \<and> (i < len
        \<and> objRefAt ctx (offset + start) i = Inr keyRef
        \<and> objRefAt ctx (offset + start + len * objectRefSize ctx) i = Inr valRef
        \<and> parseObject depth ctx keyRef = Some (Inr key) \<and> typeof key \<noteq> ''string''
       \<longrightarrow> parseDictionary_loop (parseObject depth ctx) ctx offset start len i dict
             = Some (Inl (Error UnexpectedKeyType)))"
proof (intro conjI impI)
  assume "parseObject (Suc depth) ctx tableOffset = Some (Inr v)"
  then have "parseDictionary (parseObject depth ctx) ctx offset (type AND 0x0F) = Some (Inr v)"
    by (simp only: parseObject_dispatch_dictionary[OF assms])
  then obtain len start own proto where
    lo: "lengthAndOffset (buffer ctx) offset (type AND 0x0F) = Inr (len, start)"
    and loop: "parseDictionary_loop (parseObject depth ctx) ctx offset start len 0 ([], ObjectPrototype)
                 = Some (Inr (own, proto))"
    and v: "v = Dictionary own proto"
    by (rule parseDictionary_success)
  from parseDictionary_loop_keys[OF loop] lo v
  show "\<exists>len start own proto.
              lengthAndOffset (buffer ctx) offset (type AND 0x0F) = Inr (len, start)
              \<and> v = Dictionary own proto
              \<and> (\<forall>i < len. \<exists>r k. objRefAt ctx (offset + start) i = Inr r
                                 \<and> parseObject depth ctx r = Some (Inr (String k)))"
    by auto
next
  assume a: "lengthAndOffset (buffer ctx) offset (type AND 0x0F) = Inr (len, start)
        \<and> len * 2 * objectRefSize ctx \<le> maxObjectSize \<and> 0 < len
        \<and> objRefAt ctx (offset + start) 0 = Inr keyRef
        \<and> objRefAt ctx (offset + start + len * objectRefSize ctx) 0 = Inr valRef
        \<and> parseObject depth ctx keyRef = Some (Inr key) \<and> typeof key \<noteq> ''string''"
  then have "parseDictionary_loop (parseObject depth ctx) ctx offset start len 0 ([], ObjectPrototype)
               = Some (Inl (Error UnexpectedKeyType))"
    by (intro parseDictionary_loop_key_type[of 0 len ctx offset start keyRef valRef _ key]) simp_all
  with a show "parseObject (Suc depth) ctx tableOffset = Some (Inl (Error UnexpectedKeyType))"
    by (simp add: parseObject_dispatch_dictionary[OF assms] parseDictionary_def
          del: parseObject.simps)
next
  assume "i < len
        \<and> objRefAt ctx (offset + start) i = Inr keyRef
        \<and> objRefAt ctx (offset + start + len * objectRefSize ctx) i = Inr valRef
        \<and> parseObject depth ctx keyRef = Some (Inr key) \<and> typeof key \<noteq> ''string''"
  then show "parseDictionary_loop (parseObject depth ctx) ctx offset start len i dict
             = Some (Inl (Error UnexpectedKeyType))"
    by (intro parseDictionary_loop_key_type[of i len ctx offset start keyRef valRef _ key]) simp_all
qed

theorem parseObject_dictionary_keys_witness:
  "tableEntry [8, 11, 13] 0 = Some 8
   \<and> element plist_dictionary_integer_key 8 = Some 0xD1
   \<and> drop_bit 4 ((0xD1 :: nat) AND 0xF0) = 0xD
   \<and> lengthAndOffset plist_dictionary_integer_key 8 (0xD1 AND 0x0F) = Inr (1, 1)
   \<and> parseObject (Suc 0)
        \<lparr>buffer = plist_dictionary_integer_key, offsetTable = [8, 11, 13], objectRefSize = 1,
         canonical = (\<lambda>k. False)\<rparr> 1 = Some (Inr (Integer 7))
   \<and> typeof (Integer 7) \<noteq> ''string''
   \<and> parseObject (Suc (Suc 0))
        \<lparr>buffer = plist_dictionary_integer_key, offsetTable = [8, 11, 13], objectRefSize = 1,
         canonical = (\<lambda>k. False)\<rparr> 0 = Some (Inl (Error UnexpectedKeyType))
   \<and> parseBuffer (\<lambda>k. False) (Suc (Suc 0)) plist_dictionary_integer_key
        = Some (Inl (Error UnexpectedKeyType))"
proof -
  let ?ctx = "\<lparr>buffer = plist_dictionary_integer_key, offsetTable = [8, 11, 13], objectRefSize = 1,
               canonical = (\<lambda>k. False)\<rparr>"
  have h1: "tableEntry (offsetTable ?ctx) 0 = Some 8"
    by (simp add: tableEntry_def)
  have h2: "element (buffer ?ctx) 8 = Some 0xD1"
    by (simp add: element_def plist_dictionary_integer_key_def asciiBytes_def)
  have h3: "drop_bit 4 ((0xD1 :: nat) AND 0xF0) = 0xD"
    by simp
  have lo: "lengthAndOffset (buffer ?ctx) 8 (0xD1 AND 0x0F) = Inr (1, 1)"
    by (simp add: lengthAndOffset_def)
  have refs: "objRefAt ?ctx (8 + 1) 0 = Inr 1" "objRefAt ?ctx (8 + 1 + 1 * objectRefSize ?ctx) 0 = Inr 2"
    by (simp_all add: eval_defs plist_dictionary_integer_key_def)
  have key: "parseObject (Suc 0) ?ctx 1 = Some (Inr (Integer 7))"
    by (simp add: eval_defs plist_dictionary_integer_key_def parseInteger_def reduceShiftOr_def)
  have ty: "typeof (Integer 7) \<noteq> ''string''"
    by simp
  have size: "1 * 2 * objectRefSize ?ctx \<le> maxObjectSize"
    by (simp add: maxObjectSize_def)
  from parseObject_dictionary_keys[OF h1 h2 h3, of "Suc 0" Null 1 1 1 2 "Integer 7"]
       lo refs key ty size
  have top: "parseObject (Suc (Suc 0)) ?ctx 0 = Some (Inl (Error UnexpectedKeyType))"
    by blast
  have "parseBuffer (\<lambda>k. False) (Suc (Suc 0)) plist_dictionary_integer_key
          = parseObject (Suc (Suc 0)) ?ctx 0"
    by (simp add: eval_defs plist_dictionary_integer_key_def del: parseObject.simps)
  with top h1 h2 h3 lo key ty show ?thesis
    by simp
qed

section \<open>Duplicate keys\<close>

lemma updateOwn_keys: "map fst (updateOwn own k v) = map fst own"
  by (induction own k v rule: updateOwn.induct) simp_all

lemma map_of_updateOwn:
  "k \<in> fst ` set own \<Longrightarrow>
   map_of (updateOwn own k v) x = (if x = k then Some v else map_of own x)"
proof (induction own)
  case Nil
  then show ?case by simp
next
  case (Cons e own)
  obtain k' v' where e: "e = (k', v')" by (cases e)
  show ?case
  proof (cases "k' = k")
    case True
    with e show ?thesis by simp
  next
    case False
    with Cons.prems e have "k \<in> fst ` set own" by auto
    with Cons.IH False e show ?thesis by auto
  qed
qed

lemma map_of_append_new:
  "k \<notin> fst ` set own \<Longrightarrow>
   map_of (own @ [(k, v)]) x = (if x = k then Some v else map_of own x)"
proof (induction own)
  case Nil
  then show ?case by simp
next
  case (Cons e own)
  then show ?case by (cases e) auto
qed

lemma assign_ordinary:
  "k \<noteq> js ''__proto__'' \<Longrightarrow>
   assign engine (own, ObjectPrototype) k v
     = Inr (if k \<in> fst ` set own then updateOwn own k v else own @ [(k, v)], ObjectPrototype)"
  by (simp add: assign_def objectPrototypeLookup_def)

lemma assign_ordinary_map:
  assumes "k \<noteq> js ''__proto__''" and "distinct (map fst own)"
  obtains own1 where "assign engine (own, ObjectPrototype) k v = Inr (own1, ObjectPrototype)"
    "distinct (map fst own1)" "\<And>x. map_of own1 x = (if x = k then Some v else map_of own x)"
proof (cases "k \<in> fst ` set own")
  case True
  show ?thesis
  proof (rule that[of "updateOwn own k v"])
    from assms True show "assign engine (own, ObjectPrototype) k v = Inr (updateOwn own k v, ObjectPrototype)"
      by (simp add: assign_ordinary)
    from assms show "distinct (map fst (updateOwn own k v))"
      by (simp add: updateOwn_keys)
    fix x from True show "map_of (updateOwn own k v) x = (if x = k then Some v else map_of own x)"
      by (rule map_of_updateOwn)
  qed
next
  case False
  show ?thesis
  proof (rule that[of "own @ [(k, v)]"])
    from assms False show "assign engine (own, ObjectPrototype) k v = Inr (own @ [(k, v)], ObjectPrototype)"
      by (simp add: assign_ordinary)
    from assms False show "distinct (map fst (own @ [(k, v)]))"
      by simp
    fix x from False show "map_of (own @ [(k, v)]) x = (if x = k then Some v else map_of own x)"
      by (rule map_of_append_new)
  qed
qed

lemma one_entry:
  "distinct (map fst own) \<Longrightarrow> map_of own k = Some v \<Longrightarrow> filter (\<lambda>e. fst e = k) own = [(k, v)]"
proof (induction own)
  case Nil
  then show ?case by simp
next
  case (Cons e own)
  show ?case
  proof (cases "fst e = k")
    case True
    with Cons.prems have "e = (k, v)" by (cases e) simp
    moreover from True Cons.prems have "k \<notin> fst ` set own" by auto
    then have "filter (\<lambda>e. fst e = k) own = []" by (auto simp add: filter_empty_conv)
    ultimately show ?thesis by simp
  next
    case False
    with Cons show ?thesis by (cases e) auto
  qed
qed


lemma parseDictionary_loop_last_wins:
  "parseDictionary_loop parse ctx offset start len i (own, ObjectPrototype) = Some (Inr result) \<Longrightarrow>
   distinct (map fst own) \<Longrightarrow>
   (\<forall>j. i \<le> j \<and> j < len \<longrightarrow> keyOf parse ctx (offset + start) j \<noteq> Some (js ''__proto__'')) \<Longrightarrow>
   \<exists>own'. result = (own', ObjectPrototype) \<and> distinct (map fst own')
     \<and> (\<forall>k. (\<forall>j. i \<le> j \<and> j < len \<longrightarrow> keyOf parse ctx (offset + start) j \<noteq> Some k)
            \<longrightarrow> map_of own' k = map_of own k)
     \<and> (\<forall>j k. i \<le> j \<and> j < len \<and> keyOf parse ctx (offset + start) j = Some k
                \<and> (\<forall>j'. j < j' \<and> j' < len \<longrightarrow> keyOf parse ctx (offset + start) j' \<noteq> Some k)
            \<longrightarrow> map_of own' k = valueOf parse ctx (offset + start + len * objectRefSize ctx) j)"
proof (induction "len - i" arbitrary: i own)
  case 0
  then have "\<not> i < len" by simp
  with "0.prems"(1) have "result = (own, ObjectPrototype)"
    by (simp add: parseDictionary_loop_done)
  with "0.prems"(2) \<open>\<not> i < len\<close> show ?case by auto
next
  case (Suc n)
  let ?keys = "offset + start" and ?vals = "offset + start + len * objectRefSize ctx"
  from Suc.hyps(2) have lt: "i < len" and n: "n = len - (i + 1)" by simp_all
  from parseDictionary_loop_turn[OF lt Suc.prems(1)] obtain keyRef valRef k val dict' where
    turn: "objRefAt ctx ?keys i = Inr keyRef"
      "objRefAt ctx ?vals i = Inr valRef"
      "parse keyRef = Some (Inr (String k))"
      "parse valRef = Some (Inr val)"
      "assign (canonical ctx) (own, ObjectPrototype) k val = Inr dict'"
      "parseDictionary_loop parse ctx offset start len (i + 1) dict' = Some (Inr result)"
    by blast
  from turn(1,3) have key: "keyOf parse ctx ?keys i = Some k" by (simp add: keyOf_def)
  from turn(2,4) have val: "valueOf parse ctx ?vals i = Some val" by (simp add: valueOf_def)
  from Suc.prems(3) lt key have "k \<noteq> js ''__proto__''" by force
  from assign_ordinary_map[OF this Suc.prems(2), of "canonical ctx" val] turn(5)
  obtain own1 where own1: "dict' = (own1, ObjectPrototype)" "distinct (map fst own1)"
    "\<And>x. map_of own1 x = (if x = k then Some val else map_of own x)"
    by (metis Inr_inject)
  from Suc.prems(3) have np: "\<forall>j. i + 1 \<le> j \<and> j < len \<longrightarrow> keyOf parse ctx ?keys j \<noteq> Some (js ''__proto__'')"
    by simp
  from Suc.hyps(1)[OF n turn(6)[unfolded own1(1)] own1(2) np]
  obtain own' where res: "result = (own', ObjectPrototype)" "distinct (map fst own')"
    and absent: "\<And>x. (\<forall>j. i + 1 \<le> j \<and> j < len \<longrightarrow> keyOf parse ctx ?keys j \<noteq> Some x)
                   \<Longrightarrow> map_of own' x = map_of own1 x"
    and last: "\<And>j x. i + 1 \<le> j \<Longrightarrow> j < len \<Longrightarrow> keyOf parse ctx ?keys j = Some x
                \<Longrightarrow> (\<forall>j'. j < j' \<and> j' < len \<longrightarrow> keyOf parse ctx ?keys j' \<noteq> Some x)
                \<Longrightarrow> map_of own' x = valueOf parse ctx ?vals j"
    by blast
  have A: "map_of own' x = map_of own x"
    if "\<forall>j. i \<le> j \<and> j < len \<longrightarrow> keyOf parse ctx ?keys j \<noteq> Some x" for x
  proof -
    from that lt key have "x \<noteq> k" by force
    moreover from that have "map_of own' x = map_of own1 x" by (intro absent) simp
    ultimately show ?thesis by (simp add: own1(3))
  qed
  have B: "map_of own' x = valueOf parse ctx ?vals j"
    if "i \<le> j" "j < len" "keyOf parse ctx ?keys j = Some x"
       "\<forall>j'. j < j' \<and> j' < len \<longrightarrow> keyOf parse ctx ?keys j' \<noteq> Some x" for j x
  proof (cases "j = i")
    case True
    with that(3) key have x: "x = k" by simp
    from that(4) True have "\<forall>j'. i + 1 \<le> j' \<and> j' < len \<longrightarrow> keyOf parse ctx ?keys j' \<noteq> Some x"
      by simp
    then have "map_of own' x = map_of own1 x" by (rule absent)
    with x val True show ?thesis by (simp add: own1(3))
  next
    case False
    with that(1) have "i + 1 \<le> j" by simp
    from last[OF this that(2) that(3) that(4)] show ?thesis .
  qed
  from res A B show ?case by blast
qed


lemma parseDictionary_loop_turn_value:
  "parseDictionary_loop parse ctx offset start len i dict = Some (Inr result) \<Longrightarrow>
   i \<le> j \<Longrightarrow> j < len \<Longrightarrow>
   \<exists>val. valueOf parse ctx (offset + start + len * objectRefSize ctx) j = Some val"
proof (induction "len - i" arbitrary: i dict)
  case 0
  then show ?case by simp
next
  case (Suc n)
  from Suc.hyps(2) have lt: "i < len" and n: "n = len - (i + 1)" by simp_all
  from parseDictionary_loop_turn[OF lt Suc.prems(1)] obtain keyRef valRef k val dict' where
    turn: "objRefAt ctx (offset + start + len * objectRefSize ctx) i = Inr valRef"
      "parse valRef = Some (Inr val)"
      "parseDictionary_loop parse ctx offset start len (i + 1) dict' = Some (Inr result)"
    by blast
  show ?case
  proof (cases "j = i")
    case True
    with turn(1,2) show ?thesis by (simp add: valueOf_def)
  next
    case False
    with Suc.prems(2) have "i + 1 \<le> j" by simp
    from Suc.hyps(1)[OF n turn(3) this Suc.prems(3)] show ?thesis .
  qed
qed

text \<open>
  Claim C9. For a dictionary object that \<^verbatim>\<open>parseObject\<close> decodes and none of whose keys is
  \<^verbatim>\<open>__proto__\<close>: the pair \<open>j\<close> whose key \<open>k\<close> no later pair has gives the one entry of the
  returned dictionary with the key \<open>k\<close>, and the value of that entry is the value of pair
  \<open>j\<close>; the earlier pairs with the key \<open>k\<close> are overwritten without an error. For the key
  \<^verbatim>\<open>__proto__\<close> this fails: the list with that key twice and the values \<^verbatim>\<open>true\<close> and \<^verbatim>\<open>false\<close>
  decodes to a dictionary with no entry at all, since both assignments reach the setter
  of \<^verbatim>\<open>Object.prototype\<close>, which creates no property and ignores a value that is neither an
  object nor \<^verbatim>\<open>null\<close>.
\<close>

theorem parseObject_dictionary_last_key:
  assumes "tableEntry (offsetTable ctx) tableOffset = Some offset"
      and "element (buffer ctx) offset = Some type"
      and "drop_bit 4 (type AND 0xF0) = 0xD"
      and "parseObject (Suc depth) ctx tableOffset = Some (Inr v)"
      and "lengthAndOffset (buffer ctx) offset (type AND 0x0F) = Inr (len, start)"
      and "\<forall>i < len. keyOf (parseObject depth ctx) ctx (offset + start) i \<noteq> Some (js ''__proto__'')"
      and "j < len"
      and "keyOf (parseObject depth ctx) ctx (offset + start) j = Some k"
      and "\<forall>i. j < i \<and> i < len \<longrightarrow> keyOf (parseObject depth ctx) ctx (offset + start) i \<noteq> Some k"
  shows "(\<exists>own val. v = Dictionary own ObjectPrototype
            \<and> valueOf (parseObject depth ctx) ctx (offset + start + len * objectRefSize ctx) j = Some val
            \<and> filter (\<lambda>e. fst e = k) own = [(k, val)])
         \<and> parseBuffer engine (Suc (Suc 0)) plist_dictionary_key_proto_twice
             = Some (Inr (Dictionary [] ObjectPrototype))"
proof
  from assms(4) have "parseDictionary (parseObject depth ctx) ctx offset (type AND 0x0F) = Some (Inr v)"
    by (simp only: parseObject_dispatch_dictionary[OF assms(1-3)])
  then obtain len' start' own proto where
    lo: "lengthAndOffset (buffer ctx) offset (type AND 0x0F) = Inr (len', start')"
    and loop: "parseDictionary_loop (parseObject depth ctx) ctx offset start' len' 0 ([], ObjectPrototype)
                 = Some (Inr (own, proto))"
    and v: "v = Dictionary own proto"
    by (rule parseDictionary_success)
  from lo assms(5) have same: "len' = len" "start' = start" by simp_all
  from assms(6) have np: "\<forall>i. 0 \<le> i \<and> i < len
      \<longrightarrow> keyOf (parseObject depth ctx) ctx (offset + start) i \<noteq> Some (js ''__proto__'')"
    by simp
  from parseDictionary_loop_last_wins[OF loop[unfolded same] _ np]
  have proto: "proto = ObjectPrototype" and d: "distinct (map fst own)"
    and last: "\<And>j k. j < len \<Longrightarrow> keyOf (parseObject depth ctx) ctx (offset + start) j = Some k
        \<Longrightarrow> (\<forall>j'. j < j' \<and> j' < len \<longrightarrow> keyOf (parseObject depth ctx) ctx (offset + start) j' \<noteq> Some k)
        \<Longrightarrow> map_of own k = valueOf (parseObject depth ctx) ctx (offset + start + len * objectRefSize ctx) j"
    by auto
  from parseDictionary_loop_turn_value[OF loop[unfolded same] le0 assms(7)]
  obtain val where val: "valueOf (parseObject depth ctx) ctx (offset + start + len * objectRefSize ctx) j = Some val"
    by auto
  from last[OF assms(7) assms(8) assms(9)] val have "map_of own k = Some val" by simp
  from one_entry[OF d this] v proto val
  show "\<exists>own val. v = Dictionary own ObjectPrototype
            \<and> valueOf (parseObject depth ctx) ctx (offset + start + len * objectRefSize ctx) j = Some val
            \<and> filter (\<lambda>e. fst e = k) own = [(k, val)]"
    by blast
next
  show "parseBuffer engine (Suc (Suc 0)) plist_dictionary_key_proto_twice
             = Some (Inr (Dictionary [] ObjectPrototype))"
    by (simp add: eval_defs plist_dictionary_key_proto_twice_def
          parsePlistString_def assign_def objectPrototypeLookup_def)
qed


theorem parseObject_dictionary_last_key_witness:
  "tableEntry [8, 13, 15, 16] 0 = Some 8
   \<and> element plist_dictionary_key_A_twice 8 = Some 0xD2
   \<and> drop_bit 4 ((0xD2 :: nat) AND 0xF0) = 0xD
   \<and> lengthAndOffset plist_dictionary_key_A_twice 8 (0xD2 AND 0x0F) = Inr (2, 1)
   \<and> parseObject (Suc (Suc 0))
        \<lparr>buffer = plist_dictionary_key_A_twice, offsetTable = [8, 13, 15, 16], objectRefSize = 1,
         canonical = (\<lambda>k. False)\<rparr> 0
       = Some (Inr (Dictionary [(js ''A'', Boolean False)] ObjectPrototype))
   \<and> keyOf (parseObject (Suc 0)
               \<lparr>buffer = plist_dictionary_key_A_twice, offsetTable = [8, 13, 15, 16], objectRefSize = 1,
                canonical = (\<lambda>k. False)\<rparr>)
        \<lparr>buffer = plist_dictionary_key_A_twice, offsetTable = [8, 13, 15, 16], objectRefSize = 1,
         canonical = (\<lambda>k. False)\<rparr> (8 + 1) 0 = Some (js ''A'')
   \<and> keyOf (parseObject (Suc 0)
               \<lparr>buffer = plist_dictionary_key_A_twice, offsetTable = [8, 13, 15, 16], objectRefSize = 1,
                canonical = (\<lambda>k. False)\<rparr>)
        \<lparr>buffer = plist_dictionary_key_A_twice, offsetTable = [8, 13, 15, 16], objectRefSize = 1,
         canonical = (\<lambda>k. False)\<rparr> (8 + 1) 1 = Some (js ''A'')
   \<and> valueOf (parseObject (Suc 0)
               \<lparr>buffer = plist_dictionary_key_A_twice, offsetTable = [8, 13, 15, 16], objectRefSize = 1,
                canonical = (\<lambda>k. False)\<rparr>)
        \<lparr>buffer = plist_dictionary_key_A_twice, offsetTable = [8, 13, 15, 16], objectRefSize = 1,
         canonical = (\<lambda>k. False)\<rparr> (8 + 1 + 2 * 1) 1 = Some (Boolean False)
   \<and> filter (\<lambda>e. fst e = js ''A'') [(js ''A'', Boolean False)] = [(js ''A'', Boolean False)]
   \<and> parseBuffer (\<lambda>k. False) (Suc (Suc 0)) plist_dictionary_key_A_twice
       = Some (Inr (Dictionary [(js ''A'', Boolean False)] ObjectPrototype))
   \<and> parseBuffer (\<lambda>k. False) (Suc (Suc 0)) plist_dictionary_key_proto_twice
       = Some (Inr (Dictionary [] ObjectPrototype))"
proof -
  let ?ctx = "\<lparr>buffer = plist_dictionary_key_A_twice, offsetTable = [8, 13, 15, 16], objectRefSize = 1,
               canonical = (\<lambda>k. False)\<rparr>"
  let ?v = "Dictionary [(js ''A'', Boolean False)] ObjectPrototype"
  have h1: "tableEntry (offsetTable ?ctx) 0 = Some 8"
    by (simp add: tableEntry_def)
  have h2: "element (buffer ?ctx) 8 = Some 0xD2"
    by (simp add: element_def plist_dictionary_key_A_twice_def asciiBytes_def)
  have h3: "drop_bit 4 ((0xD2 :: nat) AND 0xF0) = 0xD"
    by simp
  have lo: "lengthAndOffset (buffer ?ctx) 8 (0xD2 AND 0x0F) = Inr (2, 1)"
    by (simp add: lengthAndOffset_def)
  have top: "parseObject (Suc (Suc 0)) ?ctx 0 = Some (Inr ?v)"
    by (simp add: eval_defs plist_dictionary_key_A_twice_def parsePlistString_def assign_def
          objectPrototypeLookup_def)
  have keys: "keyOf (parseObject (Suc 0) ?ctx) ?ctx (8 + 1) 0 = Some (js ''A'')"
    "keyOf (parseObject (Suc 0) ?ctx) ?ctx (8 + 1) 1 = Some (js ''A'')"
    by (simp_all add: keyOf_def eval_defs plist_dictionary_key_A_twice_def parsePlistString_def)
  have val: "valueOf (parseObject (Suc 0) ?ctx) ?ctx (8 + 1 + 2 * 1) 1 = Some (Boolean False)"
    by (simp add: valueOf_def eval_defs plist_dictionary_key_A_twice_def)
  have A: "js ''A'' \<noteq> js ''__proto__''"
    by (simp add: js_def)
  have np: "\<forall>i < 2. keyOf (parseObject (Suc 0) ?ctx) ?ctx (8 + 1) i \<noteq> Some (js ''__proto__'')"
  proof (intro allI impI)
    fix i :: nat assume "i < 2"
    then have "i = 0 \<or> i = 1" by auto
    with keys A show "keyOf (parseObject (Suc 0) ?ctx) ?ctx (8 + 1) i \<noteq> Some (js ''__proto__'')"
      by auto
  qed
  have later: "\<forall>i. 1 < i \<and> i < 2 \<longrightarrow> keyOf (parseObject (Suc 0) ?ctx) ?ctx (8 + 1) i \<noteq> Some (js ''A'')"
    by auto
  have j: "(1 :: nat) < 2" by simp
  from parseObject_dictionary_last_key[OF h1 h2 h3 top lo np j keys(2) later, of "\<lambda>k. False"]
  have one: "filter (\<lambda>e. fst e = js ''A'') [(js ''A'', Boolean False)] = [(js ''A'', Boolean False)]"
    and bad: "parseBuffer (\<lambda>k. False) (Suc (Suc 0)) plist_dictionary_key_proto_twice
       = Some (Inr (Dictionary [] ObjectPrototype))"
    by (auto simp add: val)
  have "parseBuffer (\<lambda>k. False) (Suc (Suc 0)) plist_dictionary_key_A_twice
          = parseObject (Suc (Suc 0)) ?ctx 0"
    by (simp add: eval_defs plist_dictionary_key_A_twice_def del: parseObject.simps)
  with top have whole: "parseBuffer (\<lambda>k. False) (Suc (Suc 0)) plist_dictionary_key_A_twice = Some (Inr ?v)"
    by simp
  from h1 h2 h3 lo top keys val one whole bad show ?thesis
    by simp
qed

section \<open>The input buffer\<close>

text \<open>
  The parser allocates, and the byte-swapping decoder writes; neither touches a typed
  array that existed before the call. The store-passing functions return what the
  functions on values return, so everything proved above holds of them too.
\<close>

lemma preserved_refl: "preserved s s"
  by (simp add: preserved_def)

lemma preserved_trans: "preserved s s1 \<Longrightarrow> preserved s1 s2 \<Longrightarrow> preserved s s2"
  by (auto simp add: preserved_def)

lemma preserved_cells: "preserved s s' \<Longrightarrow> b < fresh s \<Longrightarrow> cells s' b = cells s b"
  by (simp add: preserved_def)

lemma preserved_fresh: "preserved s s' \<Longrightarrow> b < fresh s \<Longrightarrow> b < fresh s'"
  by (simp add: preserved_def)

lemma preserved_view: "preserved s s' \<Longrightarrow> bufferAt c < fresh s \<Longrightarrow> view c s' = view c s"
  by (simp add: view_def preserved_def)

lemma allocate_preserved: "preserved s (snd (allocate bytes s))"
  by (simp add: allocate_def preserved_def)

lemma allocate_cells: "allocate bytes s = (p, s1) \<Longrightarrow> cells s1 p = bytes \<and> p = fresh s \<and> fresh s1 = Suc p"
  by (auto simp add: allocate_def)

lemma assignElement_other:
  "b \<noteq> p \<Longrightarrow> cells (assignElement p i v s) b = cells s b"
  by (simp add: assignElement_def)

lemma assignElement_fresh: "fresh (assignElement p i v s) = fresh s"
  by (simp add: assignElement_def)

lemma swapBytes_loop_other:
  "b \<noteq> p \<Longrightarrow> cells (swapBytes_loop p len i s) b = cells s b"
proof (induction p len i s rule: swapBytes_loop.induct)
  case (1 a len i s)
  show ?case
  proof (cases "i < len")
    case True
    with 1 show ?thesis
      by (subst swapBytes_loop.simps) (simp add: Let_def assignElement_other)
  next
    case False
    then show ?thesis by (subst swapBytes_loop.simps) simp
  qed
qed

lemma swapBytes_loop_fresh:
  "fresh (swapBytes_loop p len i s) = fresh s"
proof (induction p len i s rule: swapBytes_loop.induct)
  case (1 a len i s)
  show ?case
  proof (cases "i < len")
    case True
    with 1 show ?thesis
      by (subst swapBytes_loop.simps) (simp add: Let_def assignElement_fresh)
  next
    case False
    then show ?thesis by (subst swapBytes_loop.simps) simp
  qed
qed

lemma swapBytes_preserved: "fresh s \<le> p \<Longrightarrow> preserved s (swapBytes p s)"
  by (simp add: preserved_def swapBytes_def swapBytes_loop_fresh swapBytes_loop_other)

lemma parsePlistString_swap_preserved:
  "preserved s (snd (parsePlistString_swap a offset objInfo isUtf16 s))"
proof -
  obtain len0 stroffset where lo: "lengthAndOffset_loop (cells s a) offset objInfo = (len0, stroffset)"
    by (cases "lengthAndOffset_loop (cells s a) offset objInfo")
  let ?len = "len0 * ((if isUtf16 then 1 else 0) + 1)"
  let ?bytes = "subarray_int (cells s a) (int (offset + stroffset)) (int (offset + stroffset) + ?len)"
  obtain p s1 where al: "allocate ?bytes s = (p, s1)"
    by (cases "allocate ?bytes s")
  from allocate_preserved[of s ?bytes] al have p1: "preserved s s1" by simp
  from allocate_cells[OF al] have ps: "p = fresh s" "fresh s1 = Suc p" by simp_all
  have p2: "preserved s (swapBytes p s1)"
    unfolding preserved_def
  proof (intro conjI allI impI)
    show "fresh s \<le> fresh (swapBytes p s1)"
      using ps by (simp add: swapBytes_def swapBytes_loop_fresh)
  next
    fix b assume b: "b < fresh s"
    with ps have "b \<noteq> p" by simp
    then have "cells (swapBytes p s1) b = cells s1 b"
      by (simp add: swapBytes_def swapBytes_loop_other)
    also from p1 b have "\<dots> = cells s b" by (rule preserved_cells)
    finally show "cells (swapBytes p s1) b = cells s b" .
  qed
  show ?thesis
    using lo al p1 p2 by (simp add: parsePlistString_swap_def Let_def preserved_refl)
qed

lemma parsePlistString_st_sim:
  "fst (parsePlistString_st a offset objInfo isUtf16 s) = parsePlistString (cells s a) offset objInfo isUtf16
   \<and> preserved s (snd (parsePlistString_st a offset objInfo isUtf16 s))"
proof (cases "lengthAndOffset (cells s a) offset objInfo")
  case (Inl e)
  then show ?thesis
    by (simp add: parsePlistString_st_def parsePlistString_def preserved_refl)
next
  case (Inr lo)
  obtain len0 stroffset where lo: "lo = (len0, stroffset)" by (cases lo)
  let ?len = "len0 * ((if isUtf16 then 1 else 0) + 1)"
  let ?bytes = "subarray (cells s a) (offset + stroffset) (offset + stroffset + ?len)"
  obtain p s1 where al: "allocate ?bytes s = (p, s1)"
    by (cases "allocate ?bytes s")
  from allocate_preserved[of s ?bytes] al have p1: "preserved s s1" by simp
  have c: "cells s1 p = ?bytes" by (rule allocate_cells[OF al, THEN conjunct1])
  show ?thesis
    using Inr lo al p1 c
    by (cases isUtf16) (simp_all add: parsePlistString_st_def parsePlistString_def Let_def preserved_refl)
qed


lemma parseArray_loop_st_done:
  "\<not> i < len \<Longrightarrow> parseArray_loop_st parse c offset start len i array s = (Some (Inr array), s)"
  by (subst parseArray_loop_st.simps) simp

lemma parseArray_loop_st_step:
  "i < len \<Longrightarrow>
   parseArray_loop_st parse c offset start len i array s =
     (case objRefAt (view c s) (offset + start) i of
        Inl e \<Rightarrow> (Some (Inl e), s)
      | Inr objRef \<Rightarrow>
          (case parse objRef s of
             (None, s1) \<Rightarrow> (None, s1)
           | (Some (Inl e), s1) \<Rightarrow> (Some (Inl e), s1)
           | (Some (Inr v), s1) \<Rightarrow>
               parseArray_loop_st parse c offset start len (i + 1) (array @ [v]) s1))"
  by (subst parseArray_loop_st.simps) simp

lemma parseArray_loop_st_sim:
  assumes H: "\<And>r s. view c s = ctx \<Longrightarrow> bufferAt c < fresh s \<Longrightarrow>
                fst (parse_st r s) = parse r \<and> preserved s (snd (parse_st r s))"
  shows "view c s = ctx \<Longrightarrow> bufferAt c < fresh s \<Longrightarrow>
     fst (parseArray_loop_st parse_st c offset start len i array s)
       = parseArray_loop parse ctx offset start len i array
     \<and> preserved s (snd (parseArray_loop_st parse_st c offset start len i array s))"
proof (induction "len - i" arbitrary: i array s)
  case 0
  then have "\<not> i < len" by simp
  then show ?case
    by (simp add: parseArray_loop_st_done parseArray_loop_done preserved_refl)
next
  case (Suc n)
  then have lt: "i < len" and n: "n = len - (i + 1)" by simp_all
  note v = \<open>view c s = ctx\<close> and a = \<open>bufferAt c < fresh s\<close>
  show ?case
  proof (cases "objRefAt ctx (offset + start) i")
    case (Inl e)
    with v show ?thesis
      by (simp add: parseArray_loop_st_step[OF lt] parseArray_loop_step[OF lt] preserved_refl)
  next
    case (Inr objRef)
    obtain x s1 where ps: "parse_st objRef s = (x, s1)" by (cases "parse_st objRef s")
    from H[OF v a, of objRef] ps have x: "parse objRef = x" and p1: "preserved s s1" by simp_all
    show ?thesis
    proof (cases "\<exists>w. x = Some (Inr w)")
      case False
      with v Inr ps x p1 show ?thesis
        by (simp add: parseArray_loop_st_step[OF lt] parseArray_loop_step[OF lt]
              split: option.splits sum.splits)
    next
      case True
      then obtain w where w: "x = Some (Inr w)" by blast
      from p1 a have v1: "view c s1 = ctx" and a1: "bufferAt c < fresh s1"
        using v by (simp_all add: preserved_view preserved_fresh)
      from Suc.hyps(1)[OF n v1 a1, of "array @ [w]"]
      have IH: "fst (parseArray_loop_st parse_st c offset start len (i + 1) (array @ [w]) s1)
                  = parseArray_loop parse ctx offset start len (i + 1) (array @ [w])"
               "preserved s1 (snd (parseArray_loop_st parse_st c offset start len (i + 1) (array @ [w]) s1))"
        by simp_all
      from preserved_trans[OF p1 IH(2)] IH(1) v Inr ps x w show ?thesis
        by (simp add: parseArray_loop_st_step[OF lt] parseArray_loop_step[OF lt])
    qed
  qed
qed


lemma parseDictionary_loop_st_done:
  "\<not> i < len \<Longrightarrow> parseDictionary_loop_st parse c offset start len i dict s = (Some (Inr dict), s)"
  by (subst parseDictionary_loop_st.simps) simp

lemma parseDictionary_loop_st_step:
  "i < len \<Longrightarrow>
   parseDictionary_loop_st parse c offset start len i dict s =
     (case objRefAt (view c s) (offset + start) i of
        Inl e \<Rightarrow> (Some (Inl e), s)
      | Inr keyRef \<Rightarrow>
          (case objRefAt (view c s) (offset + start + len * refWidth c) i of
             Inl e \<Rightarrow> (Some (Inl e), s)
           | Inr valRef \<Rightarrow>
               (case parse keyRef s of
                  (None, s1) \<Rightarrow> (None, s1)
                | (Some (Inl e), s1) \<Rightarrow> (Some (Inl e), s1)
                | (Some (Inr key), s1) \<Rightarrow>
                    (case key of
                       String k \<Rightarrow>
                         (case parse valRef s1 of
                            (None, s2) \<Rightarrow> (None, s2)
                          | (Some (Inl e), s2) \<Rightarrow> (Some (Inl e), s2)
                          | (Some (Inr val), s2) \<Rightarrow>
                              (case assign (numeric c) dict k val of
                                 Inl e \<Rightarrow> (Some (Inl e), s2)
                               | Inr dict' \<Rightarrow>
                                   parseDictionary_loop_st parse c offset start len (i + 1) dict' s2))
                     | _ \<Rightarrow> (Some (Inl (Error UnexpectedKeyType)), s1)))))"
  by (subst parseDictionary_loop_st.simps) simp

lemma parseDictionary_loop_st_sim:
  assumes H: "\<And>r s. view c s = ctx \<Longrightarrow> bufferAt c < fresh s \<Longrightarrow>
                fst (parse_st r s) = parse r \<and> preserved s (snd (parse_st r s))"
  shows "view c s = ctx \<Longrightarrow> bufferAt c < fresh s \<Longrightarrow>
     fst (parseDictionary_loop_st parse_st c offset start len i dict s)
       = parseDictionary_loop parse ctx offset start len i dict
     \<and> preserved s (snd (parseDictionary_loop_st parse_st c offset start len i dict s))"
proof (induction "len - i" arbitrary: i dict s)
  case 0
  then have "\<not> i < len" by simp
  then show ?case
    by (simp add: parseDictionary_loop_st_done parseDictionary_loop_done preserved_refl)
next
  case (Suc n)
  then have lt: "i < len" and n: "n = len - (i + 1)" by simp_all
  note v = \<open>view c s = ctx\<close> and a = \<open>bufferAt c < fresh s\<close>
  from v have fields: "objectRefSize ctx = refWidth c" "canonical ctx = numeric c"
    by (auto simp add: view_def)
  note steps = parseDictionary_loop_st_step[OF lt] parseDictionary_loop_step[OF lt]
  show ?case
  proof (cases "\<exists>keyRef valRef. objRefAt ctx (offset + start) i = Inr keyRef
                  \<and> objRefAt ctx (offset + start + len * refWidth c) i = Inr valRef")
    case False
    with v fields show ?thesis
      by (auto simp add: steps preserved_refl split: sum.splits)
  next
    case True
    then obtain keyRef valRef where refs: "objRefAt ctx (offset + start) i = Inr keyRef"
      "objRefAt ctx (offset + start + len * refWidth c) i = Inr valRef" by blast
    obtain x s1 where ps: "parse_st keyRef s = (x, s1)" by (cases "parse_st keyRef s")
    from H[OF v a, of keyRef] ps have x: "parse keyRef = x" and p1: "preserved s s1" by simp_all
    from p1 a have v1: "view c s1 = ctx" and a1: "bufferAt c < fresh s1"
      using v by (simp_all add: preserved_view preserved_fresh)
    show ?thesis
    proof (cases "\<exists>k. x = Some (Inr (String k))")
      case False
      with v fields refs ps x p1 show ?thesis
        by (simp add: steps split: option.splits sum.splits property.splits)
    next
      case True
      then obtain k where k: "x = Some (Inr (String k))" by blast
      obtain y s2 where ps2: "parse_st valRef s1 = (y, s2)" by (cases "parse_st valRef s1")
      from H[OF v1 a1, of valRef] ps2 have y: "parse valRef = y" and p2: "preserved s1 s2"
        by simp_all
      from p1 p2 have p12: "preserved s s2" by (rule preserved_trans)
      from p12 a have v2: "view c s2 = ctx" and a2: "bufferAt c < fresh s2"
        using v by (simp_all add: preserved_view preserved_fresh)
      show ?thesis
      proof (cases "\<exists>val dict'. y = Some (Inr val) \<and> assign (numeric c) dict k val = Inr dict'")
        case False
        with v fields refs ps x k ps2 y p12 show ?thesis
          by (auto simp add: steps split: option.splits sum.splits)
      next
        case True
        then obtain val dict' where val: "y = Some (Inr val)"
          and asg: "assign (numeric c) dict k val = Inr dict'" by blast
        from Suc.hyps(1)[OF n v2 a2, of dict']
        have IH: "fst (parseDictionary_loop_st parse_st c offset start len (i + 1) dict' s2)
                    = parseDictionary_loop parse ctx offset start len (i + 1) dict'"
                 "preserved s2 (snd (parseDictionary_loop_st parse_st c offset start len (i + 1) dict' s2))"
          by simp_all
        from preserved_trans[OF p12 IH(2)] IH(1) v fields refs ps x k ps2 y val asg show ?thesis
          by (simp add: steps)
      qed
    qed
  qed
qed

lemma parseArray_st_sim:
  assumes H: "\<And>r s. view c s = ctx \<Longrightarrow> bufferAt c < fresh s \<Longrightarrow>
                fst (parse_st r s) = parse r \<and> preserved s (snd (parse_st r s))"
      and v: "view c s = ctx" and a: "bufferAt c < fresh s"
  shows "fst (parseArray_st parse_st c offset objInfo s) = parseArray parse ctx offset objInfo
     \<and> preserved s (snd (parseArray_st parse_st c offset objInfo s))"
proof -
  from v have fields: "buffer ctx = cells s (bufferAt c)" "objectRefSize ctx = refWidth c"
    by (auto simp add: view_def)
  show ?thesis
  proof (cases "lengthAndOffset (cells s (bufferAt c)) offset objInfo")
    case (Inl e)
    with fields show ?thesis
      by (simp add: parseArray_st_def parseArray_def preserved_refl)
  next
    case (Inr lo)
    obtain len start where lo: "lo = (len, start)" by (cases lo)
    obtain x s1 where loop: "parseArray_loop_st parse_st c offset start len 0 [] s = (x, s1)"
      by (cases "parseArray_loop_st parse_st c offset start len 0 [] s")
    from parseArray_loop_st_sim[of c ctx parse_st parse s offset start len 0 "[]", OF H v a] loop
    have "parseArray_loop parse ctx offset start len 0 [] = x" "preserved s s1" by simp_all
    with Inr lo fields loop show ?thesis
      by (simp add: parseArray_st_def parseArray_def preserved_refl split: option.splits sum.splits)
  qed
qed

lemma parseDictionary_st_sim:
  assumes H: "\<And>r s. view c s = ctx \<Longrightarrow> bufferAt c < fresh s \<Longrightarrow>
                fst (parse_st r s) = parse r \<and> preserved s (snd (parse_st r s))"
      and v: "view c s = ctx" and a: "bufferAt c < fresh s"
  shows "fst (parseDictionary_st parse_st c offset objInfo s) = parseDictionary parse ctx offset objInfo
     \<and> preserved s (snd (parseDictionary_st parse_st c offset objInfo s))"
proof -
  from v have fields: "buffer ctx = cells s (bufferAt c)" "objectRefSize ctx = refWidth c"
    by (auto simp add: view_def)
  show ?thesis
  proof (cases "lengthAndOffset (cells s (bufferAt c)) offset objInfo")
    case (Inl e)
    with fields show ?thesis
      by (simp add: parseDictionary_st_def parseDictionary_def preserved_refl)
  next
    case (Inr lo)
    obtain len start where lo: "lo = (len, start)" by (cases lo)
    obtain x s1 where loop:
      "parseDictionary_loop_st parse_st c offset start len 0 ([], ObjectPrototype) s = (x, s1)"
      by (cases "parseDictionary_loop_st parse_st c offset start len 0 ([], ObjectPrototype) s")
    from parseDictionary_loop_st_sim[of c ctx parse_st parse s offset start len 0 "([], ObjectPrototype)",
           OF H v a] loop
    have "parseDictionary_loop parse ctx offset start len 0 ([], ObjectPrototype) = x" "preserved s s1"
      by simp_all
    with Inr lo fields loop show ?thesis
      by (simp add: parseDictionary_st_def parseDictionary_def preserved_refl
            split: option.splits sum.splits prod.splits)
  qed
qed

lemma parseObject_st_sim:
  "bufferAt c < fresh s \<Longrightarrow>
   fst (parseObject_st depth c t s) = parseObject depth (view c s) t
   \<and> preserved s (snd (parseObject_st depth c t s))"
proof (induction depth arbitrary: t s)
  case 0
  show ?case by (simp add: preserved_refl)
next
  case (Suc depth)
  let ?ctx = "view c s"
  have H: "\<And>r s'. view c s' = ?ctx \<Longrightarrow> bufferAt c < fresh s' \<Longrightarrow>
             fst (parseObject_st depth c r s') = parseObject depth ?ctx r
             \<and> preserved s' (snd (parseObject_st depth c r s'))"
    using Suc.IH by metis
  note a = \<open>bufferAt c < fresh s\<close>
  have fields: "buffer ?ctx = cells s (bufferAt c)" "offsetTable ?ctx = offsets c"
    by (simp_all add: view_def)
  have arr: "\<And>offset objInfo.
      fst (parseArray_st (parseObject_st depth c) c offset objInfo s)
        = parseArray (parseObject depth ?ctx) ?ctx offset objInfo
      \<and> preserved s (snd (parseArray_st (parseObject_st depth c) c offset objInfo s))"
    by (rule parseArray_st_sim[OF H refl a])
  have dic: "\<And>offset objInfo.
      fst (parseDictionary_st (parseObject_st depth c) c offset objInfo s)
        = parseDictionary (parseObject depth ?ctx) ?ctx offset objInfo
      \<and> preserved s (snd (parseDictionary_st (parseObject_st depth c) c offset objInfo s))"
    by (rule parseDictionary_st_sim[OF H refl a])
  have str: "\<And>offset objInfo u r s1.
      parsePlistString_st (bufferAt c) offset objInfo u s = (r, s1) \<Longrightarrow>
      r = parsePlistString (cells s (bufferAt c)) offset objInfo u \<and> preserved s s1"
    using parsePlistString_st_sim[of "bufferAt c" _ _ _ s] by (metis fst_conv snd_conv)
  show ?case
    using arr dic str
    by (simp add: fields Let_def preserved_refl split: option.split prod.split)
qed


lemma parseBuffer_st_sim:
  assumes a: "a < fresh s"
  shows "fst (parseBuffer_st engine depth a s) = parseBuffer engine depth (cells s a)
         \<and> preserved s (snd (parseBuffer_st engine depth a s))"
proof -
  have obj: "\<And>table refSize t.
     fst (parseObject_st depth \<lparr>bufferAt = a, offsets = table, refWidth = refSize, numeric = engine\<rparr> t s)
       = parseObject depth \<lparr>buffer = cells s a, offsetTable = table, objectRefSize = refSize,
                             canonical = engine\<rparr> t
     \<and> preserved s (snd (parseObject_st depth
           \<lparr>bufferAt = a, offsets = table, refWidth = refSize, numeric = engine\<rparr> t s))"
    using parseObject_st_sim[of "\<lparr>bufferAt = a, offsets = _, refWidth = _, numeric = engine\<rparr>" s depth] a
    by (simp add: view_def)
  show ?thesis
    by (simp add: parseBuffer_st_def parseBuffer_def Let_def preserved_refl obj split: sum.split)
qed

text \<open>
  Claim C8. The caller's input buffer, a typed array \<open>a\<close> of the store, holds the same bytes
  after \<^verbatim>\<open>parseBuffer\<close> as before, whatever the input is, at every depth, and whether the call
  gives a value, an error or runs out of depth; so does every other typed array that
  existed before the call, and the result is the one computed from the input's bytes.
  The decoder that corrects the byte order of a UTF-16 string itself
  (\<^verbatim>\<open>parsePlistString\<close> with \<^verbatim>\<open>swapBytes\<close>) leaves the input as it was too: it swaps the bytes of
  a copy it has allocated.
\<close>

theorem parseBuffer_input_preserved:
  assumes "a < fresh s"
  shows "cells (snd (parseBuffer_st engine depth a s)) a = cells s a
     \<and> preserved s (snd (parseBuffer_st engine depth a s))
     \<and> fst (parseBuffer_st engine depth a s) = parseBuffer engine depth (cells s a)
     \<and> cells (snd (parsePlistString_swap a offset objInfo isUtf16 s)) a = cells s a
     \<and> preserved s (snd (parsePlistString_swap a offset objInfo isUtf16 s))"
  using assms parseBuffer_st_sim[OF assms, of engine depth]
    parsePlistString_swap_preserved[of s a offset objInfo isUtf16]
  by (simp add: preserved_cells)

theorem parseBuffer_input_preserved_witness:
  "0 < fresh (inputStore plist_string_utf16)
   \<and> cells (snd (parseBuffer_st (\<lambda>k. False) (Suc 0) 0 (inputStore plist_string_utf16))) 0
       = plist_string_utf16
   \<and> cells (snd (parseBuffer_st (\<lambda>k. False) (Suc 0) 0 (inputStore plist_string_utf16))) 1
       = [0x00, 0x68, 0x00, 0x69]
   \<and> fst (parseBuffer_st (\<lambda>k. False) (Suc 0) 0 (inputStore plist_string_utf16))
       = Some (Inr (String (js ''hi'')))
   \<and> parseBuffer (\<lambda>k. False) (Suc 0) plist_string_utf16 = Some (Inr (String (js ''hi'')))
   \<and> cells (snd (parsePlistString_swap 0 8 2 True (inputStore plist_string_utf16))) 0
       = plist_string_utf16
   \<and> cells (snd (parsePlistString_swap 0 8 2 True (inputStore plist_string_utf16))) 1
       = [0x68, 0x00, 0x69, 0x00]
   \<and> fst (parsePlistString_swap 0 8 2 True (inputStore plist_string_utf16))
       = Inr (String (js ''hi''))"
proof -
  let ?s = "inputStore plist_string_utf16"
  have a: "0 < fresh ?s" and input: "cells ?s 0 = plist_string_utf16"
    by (simp_all add: inputStore_def)
  have swap: "parsePlistString_swap 0 8 2 True ?s
     = (Inr (String (js ''hi'')),
        \<lparr>cells = (\<lambda>a. [])(0 := plist_string_utf16, 1 := [0x68, 0x00, 0x69, 0x00]), fresh = 2\<rparr>)"
    by (simp add: parsePlistString_swap_def lengthAndOffset_loop_def subarray_int_def allocate_def
          swapBytes_def swapBytes_loop.simps assignElement_def inputStore_def plist_string_utf16_def
          eval_defs utf16le_decode_def)
  have st: "parseBuffer_st (\<lambda>k. False) (Suc 0) 0 ?s
     = (Some (Inr (String (js ''hi''))),
        \<lparr>cells = (\<lambda>a. [])(0 := plist_string_utf16, 1 := [0x00, 0x68, 0x00, 0x69]), fresh = 2\<rparr>)"
    by (simp add: parseBuffer_st_def parsePlistString_st_def allocate_def
          inputStore_def plist_string_utf16_def eval_defs)
  from parseBuffer_input_preserved[OF a, of "\<lambda>k. False" "Suc 0" 8 2 True]
  have frame: "cells (snd (parseBuffer_st (\<lambda>k. False) (Suc 0) 0 ?s)) 0 = plist_string_utf16"
    "parseBuffer (\<lambda>k. False) (Suc 0) plist_string_utf16 = fst (parseBuffer_st (\<lambda>k. False) (Suc 0) 0 ?s)"
    "cells (snd (parsePlistString_swap 0 8 2 True ?s)) 0 = plist_string_utf16"
    by (simp_all only: input)
  have others: "cells (snd (parseBuffer_st (\<lambda>k. False) (Suc 0) 0 ?s)) 1 = [0x00, 0x68, 0x00, 0x69]"
    "fst (parseBuffer_st (\<lambda>k. False) (Suc 0) 0 ?s) = Some (Inr (String (js ''hi'')))"
    "cells (snd (parsePlistString_swap 0 8 2 True ?s)) 1 = [0x68, 0x00, 0x69, 0x00]"
    "fst (parsePlistString_swap 0 8 2 True ?s) = Inr (String (js ''hi''))"
    by (simp_all only: st swap fst_conv snd_conv store.simps fun_upd_same)
  from a frame others show ?thesis
    by (simp only: simp_thms)
qed

section \<open>The size limit\<close>

lemma bigEndian_wide: "65535 < bigEndian bs \<Longrightarrow> 2 < length bs"
  using bigEndian_two_bytes[of bs] by (cases "length bs \<le> 2") auto

lemma lengthAndOffset_wide_count:
  assumes "65535 < declaredCount bytes offset objInfo" and "objInfo < 16"
  shows "\<exists>n. 2 < n \<and> lengthAndOffset bytes offset objInfo = Inl (Error (UnexpectedUintLength n))"
proof -
  let ?e = "toInt32 (element bytes (offset + 1)) AND 0x0F"
  let ?cnt = "take (2 ^ ?e) (drop (offset + 2) bytes)"
  from assms have info: "objInfo = 0xF"
    by (auto simp add: declaredCount_def split: if_splits)
  with assms(1) have "65535 < bigEndian ?cnt"
    by (simp add: declaredCount_def bigEndian_positional)
  then have len: "2 < length ?cnt"
    by (rule bigEndian_wide)
  have "subarray bytes (offset + 2) (offset + 2 + 2 ^ ?e) = ?cnt"
    by (simp add: subarray_take_drop)
  with len info have "lengthAndOffset bytes offset objInfo = Inl (Error (UnexpectedUintLength (length ?cnt)))"
    by (simp add: lengthAndOffset_extended readUInt_cases del: length_take)
  with len show ?thesis by blast
qed


text \<open>
  Claim C3. An object that declares a size above the limit ends \<^verbatim>\<open>parseObject\<close> with an
  error, and the store is the one before the call: nothing has been allocated. The limit
  is the 100,000,000 of the claim, or the constant \<^verbatim>\<open>maxObjectSize\<close> that the source compares
  with, which is written \<^verbatim>\<open>100 ** 8\<close>. A size above either takes a count of more than two
  bytes, since the width of a reference is a byte of the trailer, and \<^verbatim>\<open>readUInt\<close> throws
  when it is given such a count, before the size is compared with anything. An integer,
  a real or a UID declares 32768 bytes at most.
\<close>

theorem parseObject_declared_size:
  assumes "tableEntry (offsets c) tableOffset = Some offset"
      and "element (cells s (bufferAt c)) offset = Some type"
      and "refWidth c < 256"
      and "limit = 100000000 \<or> limit = maxObjectSize"
      and "limit < declaredSize (view c s) offset (drop_bit 4 (type AND 0xF0)) (type AND 0x0F)"
  shows "\<exists>n. 2 < n
           \<and> parseObject_st (Suc depth) c tableOffset s
               = (Some (Inl (Error (UnexpectedUintLength n))), s)
           \<and> parseObject (Suc depth) (view c s) tableOffset
               = Some (Inl (Error (UnexpectedUintLength n)))"
proof -
  let ?objType = "drop_bit 4 (type AND 0xF0)" and ?objInfo = "type AND 0x0F"
  let ?bytes = "cells s (bufferAt c)"
  let ?count = "declaredCount ?bytes offset ?objInfo"
  have info: "?objInfo < 16"
    by (simp add: and_F)
  then have "(2::nat) ^ ?objInfo \<le> 2 ^ 15"
    by (intro power_increasing) simp_all
  then have small: "(2::nat) ^ ?objInfo \<le> 32768" by simp
  from assms(4) have limit: "100000000 \<le> limit"
    by (auto simp add: maxObjectSize_def)
  have fields: "buffer (view c s) = ?bytes" "objectRefSize (view c s) = refWidth c"
    "offsetTable (view c s) = offsets c"
    by (simp_all add: view_def)
  from assms(5) limit
  have size: "100000000 < declaredSize (view c s) offset ?objType ?objInfo" by simp
  then have kind: "?objType = 0x4 \<or> ?objType = 0x5 \<or> ?objType = 0x6 \<or> ?objType = 0xA \<or> ?objType = 0xD"
    using small info by (auto simp add: declaredSize_def split: if_splits)
  have count: "65535 < ?count"
  proof (rule ccontr)
    assume "\<not> 65535 < ?count"
    then have le: "?count \<le> 65535" by simp
    from product_bound[OF le assms(3)] le size kind show False
      by (auto simp add: declaredSize_def fields split: if_splits)
  qed
  from lengthAndOffset_wide_count[OF count info] obtain n where
    n: "2 < n" and lo: "lengthAndOffset ?bytes offset ?objInfo = Inl (Error (UnexpectedUintLength n))"
    by blast
  have pure: "parseObject (Suc depth) (view c s) tableOffset = Some (Inl (Error (UnexpectedUintLength n)))"
    using kind assms(1,2) lo
    by (auto simp add: fields toInt32_def Let_def parseData_def parsePlistString_def parseArray_def
          parseDictionary_def)
  have st: "parseObject_st (Suc depth) c tableOffset s = (Some (Inl (Error (UnexpectedUintLength n))), s)"
    using kind assms(1,2) lo
    by (auto simp add: toInt32_def Let_def parseData_def parsePlistString_st_def parseArray_st_def
          parseDictionary_st_def)
  from n pure st show ?thesis by blast
qed


theorem parseObject_declared_size_witness:
  "tableEntry [8] 0 = Some 8
   \<and> element plist_string_200000000 8 = Some 0x5F
   \<and> declaredSize
        \<lparr>buffer = plist_string_200000000, offsetTable = [8], objectRefSize = 1,
         canonical = (\<lambda>k. False)\<rparr> 8 0x5 0xF = 200000000
   \<and> (\<exists>n. 2 < n
         \<and> parseObject_st (Suc 0) \<lparr>bufferAt = 0, offsets = [8], refWidth = 1, numeric = (\<lambda>k. False)\<rparr> 0
              (inputStore plist_string_200000000)
             = (Some (Inl (Error (UnexpectedUintLength n))), inputStore plist_string_200000000)
         \<and> parseObject (Suc 0)
              \<lparr>buffer = plist_string_200000000, offsetTable = [8], objectRefSize = 1,
               canonical = (\<lambda>k. False)\<rparr> 0
             = Some (Inl (Error (UnexpectedUintLength n))))
   \<and> parseBuffer_st (\<lambda>k. False) (Suc 0) 0 (inputStore plist_string_200000000)
       = (Some (Inl (Error (UnexpectedUintLength 4))), inputStore plist_string_200000000)
   \<and> parseBuffer (\<lambda>k. False) (Suc 0) plist_string_200000000
       = Some (Inl (Error (UnexpectedUintLength 4)))"
proof -
  let ?c = "\<lparr>bufferAt = 0, offsets = [8], refWidth = 1, numeric = (\<lambda>k. False)\<rparr>"
  let ?s = "inputStore plist_string_200000000"
  let ?ctx = "\<lparr>buffer = plist_string_200000000, offsetTable = [8], objectRefSize = 1,
               canonical = (\<lambda>k. False)\<rparr>"
  have v: "view ?c ?s = ?ctx"
    by (simp add: view_def inputStore_def)
  have h1: "tableEntry (offsets ?c) 0 = Some 8"
    by (simp add: tableEntry_def)
  have h2: "element (cells ?s (bufferAt ?c)) 8 = Some 0x5F"
    by (simp add: element_def inputStore_def plist_string_200000000_def asciiBytes_def)
  have h3: "refWidth ?c < 256"
    by simp
  have nib: "drop_bit 4 ((0x5F :: nat) AND 0xF0) = 0x5" "(0x5F :: nat) AND 0x0F = 0xF"
    by simp_all
  have "take 4 (drop 10 plist_string_200000000) = [0x0B, 0xEB, 0xC2, 0x00]"
    by (simp add: plist_string_200000000_def asciiBytes_def)
  then have size: "declaredSize ?ctx 8 0x5 0xF = 200000000"
    by (simp add: declaredSize_def declaredCount_def bigEndian_positional[symmetric] bigEndian_def
          element_def toInt32_def plist_string_200000000_def asciiBytes_def)
  then have h5: "100000000 < declaredSize (view ?c ?s) 8 (drop_bit 4 (0x5F AND 0xF0)) (0x5F AND 0x0F)"
    by (simp only: v nib)
  have h4: "(100000000 :: nat) = 100000000 \<or> (100000000 :: nat) = maxObjectSize"
    by simp
  from parseObject_declared_size[OF h1 h2 h3 h4 h5, where depth = 0]
  have fails: "\<exists>n. 2 < n
         \<and> parseObject_st (Suc 0) ?c 0 ?s = (Some (Inl (Error (UnexpectedUintLength n))), ?s)
         \<and> parseObject (Suc 0) ?ctx 0 = Some (Inl (Error (UnexpectedUintLength n)))"
    by (simp only: v)
  have st: "parseBuffer_st (\<lambda>k. False) (Suc 0) 0 ?s = (Some (Inl (Error (UnexpectedUintLength 4))), ?s)"
    by (simp add: parseBuffer_st_def parsePlistString_st_def inputStore_def
          plist_string_200000000_def eval_defs)
  have pure: "parseBuffer (\<lambda>k. False) (Suc 0) plist_string_200000000
       = Some (Inl (Error (UnexpectedUintLength 4)))"
    by (simp add: eval_defs plist_string_200000000_def parsePlistString_def)
  have t1: "tableEntry [8] 0 = Some 8"
    by (simp add: tableEntry_def)
  have t2: "element plist_string_200000000 8 = Some 0x5F"
    by (simp add: element_def plist_string_200000000_def asciiBytes_def)
  from t1 t2 size fails st pure show ?thesis
    by (simp only: simp_thms)
qed

end
